theory Spec2Isabelle
  imports Main
begin

section \<open>fedimg: the EC2 upload pipeline\<close>

text \<open>
  A shallow embedding of \<^verbatim>\<open>fedimg/services/ec2.py\<close> (class \<^verbatim>\<open>EC2Service\<close>)
  and of \<^verbatim>\<open>fedimg/uploader.py\<close>. The code is Python 2: a \<^verbatim>\<open>str\<close> is a byte
  string, modelled as \<^typ>\<open>string\<close>, and the character classes of \<^verbatim>\<open>re\<close> are the
  ASCII ones.
\<close>

subsection \<open>Strings and the regular expressions of the source\<close>

text \<open>\<^verbatim>\<open>\d\<close>, \<^verbatim>\<open>\w\<close> and \<^verbatim>\<open>\s\<close> of \<^verbatim>\<open>re\<close> on byte strings, without flags.\<close>

definition is_digit :: "char \<Rightarrow> bool" where
  "is_digit c = (48 \<le> (of_char c :: nat) \<and> (of_char c :: nat) \<le> 57)"

definition is_word :: "char \<Rightarrow> bool" where
  "is_word c =
     (let n = (of_char c :: nat)
      in (48 \<le> n \<and> n \<le> 57) \<or> (65 \<le> n \<and> n \<le> 90) \<or> (97 \<le> n \<and> n \<le> 122) \<or> n = 95)"

definition is_space :: "char \<Rightarrow> bool" where
  "is_space c = ((of_char c :: nat) = 32 \<or> (9 \<le> (of_char c :: nat) \<and> (of_char c :: nat) \<le> 13))"

text \<open>\<^verbatim>\<open>sub in s\<close>.\<close>

fun contains :: "string \<Rightarrow> string \<Rightarrow> bool" where
  "contains sub [] = (sub = [])"
| "contains sub (c # cs) = (take (length sub) (c # cs) = sub \<or> contains sub cs)"

text \<open>\<^verbatim>\<open>s.split(sep)\<close> for a one-character separator: never an empty list.\<close>

fun split :: "char \<Rightarrow> string \<Rightarrow> string list" where
  "split sep [] = [[]]"
| "split sep (c # cs) =
     (if c = sep then [] # split sep cs
      else (case split sep cs of [] \<Rightarrow> [[c]] | w # ws \<Rightarrow> (c # w) # ws))"

text \<open>
  \<^verbatim>\<open>s.replace(old, new)\<close> for a non-empty \<^verbatim>\<open>old\<close>: every occurrence, left to right,
  without overlaps. The counter is the number of characters of a replaced occurrence
  still to be skipped.
\<close>

fun replace_from :: "string \<Rightarrow> string \<Rightarrow> nat \<Rightarrow> string \<Rightarrow> string" where
  "replace_from old new skip [] = []"
| "replace_from old new skip (c # cs) =
     (if 0 < skip then replace_from old new (skip - 1) cs
      else if take (length old) (c # cs) = old
        then new @ replace_from old new (length old - 1) cs
      else c # replace_from old new 0 cs)"

definition replace :: "string \<Rightarrow> string \<Rightarrow> string \<Rightarrow> string" where
  "replace old new s = replace_from old new 0 s"

text \<open>
  The two search patterns of the source, \<^verbatim>\<open>\s(import-vol-\w{8})\<close> and
  \<^verbatim>\<open>\s(vol-\w{17})\<close>, have the shape: one whitespace character, then a group made of
  a literal and exactly \<open>k\<close> word characters. \<open>re_search lit k s\<close> is
  \<^verbatim>\<open>re.search\<close> of that pattern in \<open>s\<close>: \<open>None\<close> when nothing matches, else group 1
  of the leftmost match.
\<close>

definition matches_here :: "string \<Rightarrow> nat \<Rightarrow> string \<Rightarrow> bool" where
  "matches_here lit k s =
     (take (length lit) s = lit \<and> k \<le> length (drop (length lit) s)
      \<and> list_all is_word (take k (drop (length lit) s)))"

fun re_search :: "string \<Rightarrow> nat \<Rightarrow> string \<Rightarrow> string option" where
  "re_search lit k [] = None"
| "re_search lit k (c # cs) =
     (if is_space c \<and> matches_here lit k cs then Some (take (length lit + k) cs)
      else re_search lit k cs)"

text \<open>
  \<^verbatim>\<open>re.sub('\d(?!\d)', lambda x: str(int(x.group(0)) + 1), image_name)\<close>: every digit
  that is not followed by a digit is a match, and each match is replaced by the decimal
  text of its value plus one.
\<close>

definition digit_char :: "nat \<Rightarrow> char" where
  "digit_char n = char_of (48 + n)"

fun str_nat :: "nat \<Rightarrow> string" where
  "str_nat n = (if n < 10 then [digit_char n] else str_nat (n div 10) @ [digit_char (n mod 10)])"

declare str_nat.simps [simp del]

definition int_digit :: "char \<Rightarrow> nat" where
  "int_digit c = (of_char c :: nat) - 48"

fun re_sub_digit :: "string \<Rightarrow> string" where
  "re_sub_digit [] = []"
| "re_sub_digit (c # cs) =
     (if is_digit c \<and> \<not> (case cs of [] \<Rightarrow> False | d # _ \<Rightarrow> is_digit d)
      then str_nat (int_digit c + 1) @ re_sub_digit cs
      else c # re_sub_digit cs)"

subsection \<open>Provider entities, driver calls and the outside world\<close>

record ec2_zone =
  zone_name :: string

record ec2_volume =
  volume_id :: string

text \<open>A snapshot with its \<^verbatim>\<open>id\<close> and its \<^verbatim>\<open>extra['state']\<close>.\<close>

record ec2_snapshot =
  snapshot_id :: string
  snapshot_state :: string

record ec2_image =
  image_id :: string

text \<open>
  Modelled from the spec: \<^verbatim>\<open>fedimg.util.region_to_driver\<close> is not among the sources.
  The spec has it resolve ``the target driver/client for the job's region using
  credentials supplied externally'', a ``client for one region of one provider''; a
  driver is therefore the region it is bound to and the two credentials it was
  instantiated with.
\<close>

datatype driver = Driver string string string

definition region_to_driver :: "string \<Rightarrow> string \<Rightarrow> string \<Rightarrow> driver" where
  "region_to_driver region = Driver region"

fun driver_region :: "driver \<Rightarrow> string" where
  "driver_region (Driver region access_id secret_key) = region"

record block_device =
  DeviceName :: string
  SnapshotId :: string
  VolumeSize :: string
  VolumeType :: string
  DeleteOnTermination :: string

record registration =
  reg_name :: string
  reg_description :: string
  reg_root_device_name :: string
  reg_block_device_mapping :: "block_device list"
  reg_virtualization_type :: string
  reg_architecture :: string

text \<open>
  Every operation that leaves the process: a notification
  (\<^verbatim>\<open>fedimg.messenger.message\<close>: topic, URL, destination, status, compose metadata,
  extra fields), a shell command (\<^verbatim>\<open>run_system_command\<close>) and the methods of the
  libcloud driver.
\<close>

datatype call =
    Message string string string string string "(string \<times> string) list"
  | RunSystemCommand string
  | ExListAvailabilityZones driver bool
  | ListVolumes driver
  | CreateVolumeSnapshot driver ec2_volume string
  | ListSnapshots driver
  | ExModifySnapshotAttribute driver ec2_snapshot "(string \<times> string) list"
  | DestroyVolume driver ec2_volume
  | ExRegisterImage driver registration
  | DeleteImage driver ec2_image
  | DestroyVolumeSnapshot driver ec2_snapshot

text \<open>
  The exceptions of the model: the two that the code itself runs into (a method called on
  \<^verbatim>\<open>None\<close> or a missing attribute, an index into an empty list) and whatever an
  outside operation raises, with the text that \<^verbatim>\<open>str(e)\<close> gives.
\<close>

datatype error = AttributeError | IndexError | ExternalError string

fun str_error :: "error \<Rightarrow> string" where
  "str_error AttributeError = ''object has no attribute''"
| "str_error IndexError = ''list index out of range''"
| "str_error (ExternalError msg) = msg"

text \<open>
  The outside world answers a call given the calls made before it; it either raises or
  returns a value of the type the call site expects. Quantifying over worlds covers every
  behaviour of the provider, the shell and the message bus.
\<close>

record world =
  ask_unit :: "call list \<Rightarrow> call \<Rightarrow> error + unit"
  ask_output :: "call list \<Rightarrow> call \<Rightarrow> error + string \<times> string"
  ask_zones :: "call list \<Rightarrow> call \<Rightarrow> error + ec2_zone list"
  ask_volumes :: "call list \<Rightarrow> call \<Rightarrow> error + ec2_volume list"
  ask_snapshot :: "call list \<Rightarrow> call \<Rightarrow> error + ec2_snapshot"
  ask_snapshots :: "call list \<Rightarrow> call \<Rightarrow> error + ec2_snapshot list"
  ask_image :: "call list \<Rightarrow> call \<Rightarrow> error + ec2_image"

text \<open>
  The configuration read by \<^verbatim>\<open>fedimg/__init__.py\<close>, as far as the service uses it,
  and \<^verbatim>\<open>fedimg.util.get_file_arch\<close>, which is not among the sources and is taken as a
  parameter.
\<close>

record config =
  AWS_ACCESS_ID :: string
  AWS_SECRET_KEY :: string
  AWS_REGIONS :: string
  AWS_VOL_SIZE :: string
  AWS_BUCKET_NAME :: string
  get_file_arch :: "string \<Rightarrow> string"

subsection \<open>The service object\<close>

record service =
  raw_url :: string
  virt_type :: string
  vol_type :: string
  cwd :: string
  volume :: "ec2_volume option"
  image :: "ec2_image option"
  snapshot :: "ec2_snapshot option"
  region :: string
  file_name :: string
  build_name :: string
  image_desc :: string
  image_arch :: string
  destination :: "string option"
  driver :: "driver option"

text \<open>
  \<^verbatim>\<open>EC2Service.__init__\<close>. The attributes \<^verbatim>\<open>destination\<close> and \<^verbatim>\<open>driver\<close> do not
  exist before \<^verbatim>\<open>upload\<close> sets them.
\<close>

definition init :: "config \<Rightarrow> string \<Rightarrow> string \<Rightarrow> string \<Rightarrow> string \<Rightarrow> service" where
  "init C url dir vt volt =
     (let regions = split (CHR ''|'') (AWS_REGIONS C);
          fname = last (split (CHR ''/'') url);
          bname = replace ''.raw.xz'' '''' fname
      in \<lparr> raw_url = url, virt_type = vt, vol_type = volt, cwd = dir,
           volume = None, image = None, snapshot = None,
           region = hd regions,
           file_name = fname, build_name = bname,
           image_desc = ''Created from build '' @ bname,
           image_arch = get_file_arch C fname,
           destination = None, driver = None \<rparr>)"

subsection \<open>Programs: state, exceptions, fuel and the trace of calls\<close>

text \<open>
  A method runs on the service object and on the trace of the calls made so far. Each
  trace entry also records the Volume and Snapshot references the object held when the
  call was made. A program returns, raises, or runs out of the fuel that bounds the
  three unbounded loops of the source.
\<close>

record entry =
  at_volume :: "ec2_volume option"
  at_snapshot :: "ec2_snapshot option"
  the_call :: call

datatype 'a outcome = Returns 'a | Raises error | OutOfFuel

type_synonym state = "service \<times> entry list"

type_synonym 'a prog = "state \<Rightarrow> 'a outcome \<times> state"

definition return :: "'a \<Rightarrow> 'a prog" where
  "return x = (\<lambda>s. (Returns x, s))"

definition raise :: "error \<Rightarrow> 'a prog" where
  "raise e = (\<lambda>s. (Raises e, s))"

definition and_then :: "'a prog \<Rightarrow> ('a \<Rightarrow> 'b prog) \<Rightarrow> 'b prog" where
  "and_then m f =
     (\<lambda>s. case m s of
            (Returns x, s') \<Rightarrow> f x s'
          | (Raises e, s') \<Rightarrow> (Raises e, s')
          | (OutOfFuel, s') \<Rightarrow> (OutOfFuel, s'))"

definition get :: "service prog" where
  "get = (\<lambda>(self, tr). (Returns self, (self, tr)))"

definition modify :: "(service \<Rightarrow> service) \<Rightarrow> unit prog" where
  "modify f = (\<lambda>(self, tr). (Returns (), (f self, tr)))"

definition calls :: "entry list \<Rightarrow> call list" where
  "calls tr = map the_call tr"

definition invoke :: "(call list \<Rightarrow> call \<Rightarrow> error + 'a) \<Rightarrow> call \<Rightarrow> 'a prog" where
  "invoke ask c =
     (\<lambda>(self, tr).
        ((case ask (calls tr) c of Inl e \<Rightarrow> Raises e | Inr x \<Rightarrow> Returns x),
         (self, tr @ [\<lparr> at_volume = volume self, at_snapshot = snapshot self, the_call = c \<rparr>])))"

text \<open>\<^verbatim>\<open>self.driver\<close>: an \<^verbatim>\<open>AttributeError\<close> before \<^verbatim>\<open>upload\<close> has set it.\<close>

definition self_driver :: "driver prog" where
  "self_driver =
     and_then get (\<lambda>self. case driver self of None \<Rightarrow> raise AttributeError | Some d \<Rightarrow> return d)"

text \<open>
  Modelled from the spec: the decorator \<^verbatim>\<open>retry\<close> and the predicate
  \<^verbatim>\<open>fedimg.util.retry_if_result_false\<close> are not among the sources. By the spec a poll
  that reports ``not yet'' is tried again after a fixed delay, without a cap, and an
  error of an attempt is fatal and propagates. ``Not yet'' is the empty string of
  \<^verbatim>\<open>describe_conversion_tasks\<close> and the \<^verbatim>\<open>False\<close> of \<^verbatim>\<open>_check_snapshot_exists\<close>.
\<close>

fun retry :: "nat \<Rightarrow> ('a \<Rightarrow> bool) \<Rightarrow> 'a prog \<Rightarrow> 'a prog" where
  "retry 0 not_yet m = (\<lambda>s. (OutOfFuel, s))"
| "retry (Suc n) not_yet m = and_then m (\<lambda>r. if not_yet r then retry n not_yet m else return r)"

definition retry_if_result_false_str :: "string \<Rightarrow> bool" where
  "retry_if_result_false_str r = (r = [])"

definition retry_if_result_false :: "bool \<Rightarrow> bool" where
  "retry_if_result_false r = (\<not> r)"

subsection \<open>The methods of \<^verbatim>\<open>EC2Service\<close>\<close>

text \<open>\<^verbatim>\<open>_clean_up(self, driver, delete_images=False)\<close>.\<close>

definition clean_up :: "world \<Rightarrow> driver \<Rightarrow> bool \<Rightarrow> unit prog" where
  "clean_up W drv delete_images =
     and_then get (\<lambda>self.
     and_then (case image self of
                 Some img \<Rightarrow> if delete_images then invoke (ask_unit W) (DeleteImage drv img)
                             else return ()
               | None \<Rightarrow> return ()) (\<lambda>_.
     and_then get (\<lambda>self.
       case snapshot self of
         Some snap \<Rightarrow>
           if image self \<noteq> None
           then and_then (invoke (ask_unit W) (DestroyVolumeSnapshot drv snap))
                  (\<lambda>_. modify (\<lambda>s. s\<lparr>snapshot := None\<rparr>))
           else return ()
       | None \<Rightarrow> return ())))"

text \<open>\<^verbatim>\<open>get_availability_zone\<close>: the first zone of the list, an \<^verbatim>\<open>IndexError\<close> on an
  empty one.\<close>

definition get_availability_zone :: "world \<Rightarrow> ec2_zone prog" where
  "get_availability_zone W =
     and_then self_driver (\<lambda>drv.
     and_then (invoke (ask_zones W) (ExListAvailabilityZones drv True)) (\<lambda>zones.
       case zones of [] \<Rightarrow> raise IndexError | z # _ \<Rightarrow> return z))"

text \<open>\<^verbatim>\<open>import_image_volume\<close>. The command text of the source continues over a line
  break inside the string literal, which leaves the indentation of the second line in
  it.\<close>

definition import_cmd :: "string \<Rightarrow> string \<Rightarrow> string \<Rightarrow> string \<Rightarrow> string \<Rightarrow> string \<Rightarrow> string" where
  "import_cmd location img_name image_format reg bucket_name availability_zone =
     ''euca-import-volume '' @ location @ ''/'' @ img_name @ '' -f '' @ image_format
       @ '' --region '' @ replicate 15 (CHR '' '') @ reg @ '' -b '' @ bucket_name
       @ '' -z '' @ availability_zone"

definition import_image_volume ::
  "world \<Rightarrow> string \<Rightarrow> string \<Rightarrow> string \<Rightarrow> string \<Rightarrow> string \<Rightarrow> (string \<times> string) prog" where
  "import_image_volume W img_name image_format reg bucket_name availability_zone =
     and_then get (\<lambda>self.
       invoke (ask_output W)
         (RunSystemCommand
            (import_cmd (cwd self) img_name image_format reg bucket_name availability_zone)))"

text \<open>\<^verbatim>\<open>match_regex_pattern\<close>, with the pattern given by its literal and its number of
  word characters.\<close>

definition match_regex_pattern :: "string \<Rightarrow> nat \<Rightarrow> string \<Rightarrow> string" where
  "match_regex_pattern lit k output =
     (case re_search lit k output of None \<Rightarrow> [] | Some g \<Rightarrow> g)"

text \<open>\<^verbatim>\<open>describe_conversion_tasks\<close>: first the body, one status query, then the method
  as decorated. \<^verbatim>\<open>match.group(1)\<close> on a failed search is an \<^verbatim>\<open>AttributeError\<close>.\<close>

definition describe_cmd :: "string \<Rightarrow> string \<Rightarrow> string" where
  "describe_cmd task_id reg = ''euca-describe-conversion-tasks '' @ task_id @ '' --region '' @ reg"

definition conversion_status :: "string \<Rightarrow> error + string" where
  "conversion_status out =
     (if contains ''completed'' out
      then (case re_search ''vol-'' 17 out of
              None \<Rightarrow> Inl AttributeError
            | Some vid \<Rightarrow> Inr vid)
      else Inr [])"

definition describe_conversion_tasks_attempt :: "world \<Rightarrow> string \<Rightarrow> string \<Rightarrow> string prog" where
  "describe_conversion_tasks_attempt W task_id reg =
     and_then (invoke (ask_output W) (RunSystemCommand (describe_cmd task_id reg))) (\<lambda>(out, err).
       case conversion_status out of Inl e \<Rightarrow> raise e | Inr vid \<Rightarrow> return vid)"

definition describe_conversion_tasks :: "world \<Rightarrow> nat \<Rightarrow> string \<Rightarrow> string \<Rightarrow> string prog" where
  "describe_conversion_tasks W fuel task_id reg =
     retry fuel retry_if_result_false_str (describe_conversion_tasks_attempt W task_id reg)"

text \<open>\<^verbatim>\<open>_check_snapshot_exists\<close>: the body, then the method as decorated.\<close>

definition check_snapshot_exists_attempt :: "world \<Rightarrow> string \<Rightarrow> bool prog" where
  "check_snapshot_exists_attempt W sid =
     and_then get (\<lambda>self.
       case snapshot self of
         None \<Rightarrow> raise AttributeError
       | Some snap \<Rightarrow>
           if snapshot_state snap \<noteq> ''completed''
           then and_then self_driver (\<lambda>drv.
                and_then (invoke (ask_snapshots W) (ListSnapshots drv)) (\<lambda>snaps.
                  case filter (\<lambda>s. snapshot_id s = sid) snaps of
                    [] \<Rightarrow> raise IndexError
                  | s # _ \<Rightarrow> and_then (modify (\<lambda>self. self\<lparr>snapshot := Some s\<rparr>))
                              (\<lambda>_. return False)))
           else return True)"

definition check_snapshot_exists :: "world \<Rightarrow> nat \<Rightarrow> string \<Rightarrow> bool prog" where
  "check_snapshot_exists W fuel sid =
     retry fuel retry_if_result_false (check_snapshot_exists_attempt W sid)"

text \<open>\<^verbatim>\<open>create_snapshot\<close>.\<close>

definition create_snapshot :: "world \<Rightarrow> nat \<Rightarrow> string \<Rightarrow> bool prog" where
  "create_snapshot W fuel vid =
     and_then get (\<lambda>self0.
     and_then self_driver (\<lambda>drv.
     and_then (invoke (ask_volumes W) (ListVolumes drv)) (\<lambda>vols.
       case filter (\<lambda>v. volume_id v = vid) vols of
         [] \<Rightarrow> raise IndexError
       | v # _ \<Rightarrow>
           and_then (modify (\<lambda>self. self\<lparr>volume := Some v\<rparr>)) (\<lambda>_.
           and_then self_driver (\<lambda>drv.
           and_then (invoke (ask_snapshot W)
                       (CreateVolumeSnapshot drv v (''fedimg-snap-'' @ build_name self0))) (\<lambda>snap.
           and_then (modify (\<lambda>self. self\<lparr>snapshot := Some snap\<rparr>)) (\<lambda>_.
             check_snapshot_exists W fuel (snapshot_id snap))))))))"

text \<open>
  \<^verbatim>\<open>register_image\<close>: the \<^verbatim>\<open>while True\<close> loop, with its counter \<^verbatim>\<open>cnt\<close> and the
  current \<^verbatim>\<open>image_name\<close>. Any exception of the registration call is caught; one whose
  text contains \<^verbatim>\<open>InvalidAMIName.Duplicate\<close> starts the next round, any other is raised
  again.
\<close>

fun register_loop ::
  "world \<Rightarrow> nat \<Rightarrow> nat \<Rightarrow> string \<Rightarrow> string \<Rightarrow> block_device list \<Rightarrow> unit prog" where
  "register_loop W 0 cnt image_name reg_root blk_device_mapping = (\<lambda>s. (OutOfFuel, s))"
| "register_loop W (Suc fuel) cnt image_name reg_root blk_device_mapping =
     (let image_name = (if 0 < cnt then re_sub_digit image_name else image_name)
      in (\<lambda>s.
        case and_then self_driver (\<lambda>drv.
             and_then get (\<lambda>self.
               invoke (ask_image W)
                 (ExRegisterImage drv
                    \<lparr> reg_name = image_name, reg_description = image_desc self,
                      reg_root_device_name = reg_root,
                      reg_block_device_mapping = blk_device_mapping,
                      reg_virtualization_type = virt_type self,
                      reg_architecture = image_arch self \<rparr>))) s of
          (Returns img, s') \<Rightarrow> modify (\<lambda>self. self\<lparr>image := Some img\<rparr>) s'
        | (Raises e, s') \<Rightarrow>
            if contains ''InvalidAMIName.Duplicate'' (str_error e)
            then register_loop W fuel (cnt + 1) image_name reg_root blk_device_mapping s'
            else (Raises e, s')
        | (OutOfFuel, s') \<Rightarrow> (OutOfFuel, s')))"

definition register_image ::
  "world \<Rightarrow> nat \<Rightarrow> string \<Rightarrow> string \<Rightarrow> block_device list \<Rightarrow> unit prog" where
  "register_image W fuel image_name reg_root blk_device_mapping =
     register_loop W fuel 0 image_name reg_root blk_device_mapping"

text \<open>The image name and the root device name that \<^verbatim>\<open>upload\<close> computes before the
  registration.\<close>

definition image_name_of :: "service \<Rightarrow> string \<Rightarrow> string" where
  "image_name_of self reg =
     (if virt_type self = ''paravirtual''
      then build_name self @ ''-'' @ reg @ ''-PV-'' @ vol_type self @ ''-0''
      else build_name self @ ''-'' @ reg @ ''-HVM-'' @ vol_type self @ ''-0'')"

definition reg_root_device_name_of :: "service \<Rightarrow> string" where
  "reg_root_device_name_of self =
     (if virt_type self = ''paravirtual'' then ''/dev/sda'' else ''/dev/sda1'')"

text \<open>
  \<^verbatim>\<open>upload\<close>, in two parts: from the start to the destruction of the volume (up to
  the comment ``Actually register image'' of the source), which hands the local variable
  \<^verbatim>\<open>region\<close> on, and from there to the end. The branches on a missing Snapshot,
  Volume or Image reference are never reached: each reference is set by the step before.
\<close>

definition upload_snapshot :: "config \<Rightarrow> world \<Rightarrow> nat \<Rightarrow> string \<Rightarrow> string prog" where
  "upload_snapshot C W fuel compose_meta =
     and_then get (\<lambda>self0.
     let reg = region self0 in
     and_then (modify (\<lambda>self. self\<lparr>destination := Some (''EC2 ('' @ reg @ '')'')\<rparr>)) (\<lambda>_.
     and_then get (\<lambda>self.
     and_then (case destination self of
                 None \<Rightarrow> raise AttributeError
               | Some dest \<Rightarrow>
                   invoke (ask_unit W)
                     (Message ''image.upload'' (raw_url self) dest ''started'' compose_meta [])) (\<lambda>_.
     and_then (modify (\<lambda>self. self\<lparr>driver :=
                 Some (region_to_driver reg (AWS_ACCESS_ID C) (AWS_SECRET_KEY C))\<rparr>)) (\<lambda>_.
     let bucket_name = AWS_BUCKET_NAME C @ ''-'' @ reg in
     and_then (get_availability_zone W) (\<lambda>availability_zone.
     and_then get (\<lambda>self.
     and_then (import_image_volume W (file_name self) ''raw'' reg bucket_name
                 (zone_name availability_zone)) (\<lambda>(out, err).
     let task_id = match_regex_pattern ''import-vol-'' 8 out in
     and_then (describe_conversion_tasks W fuel task_id reg) (\<lambda>vid.
     and_then (create_snapshot W fuel vid) (\<lambda>_.
     and_then self_driver (\<lambda>drv.
     and_then get (\<lambda>self.
     and_then (case snapshot self of
                 None \<Rightarrow> raise AttributeError
               | Some snap \<Rightarrow>
                   invoke (ask_unit W)
                     (ExModifySnapshotAttribute drv snap
                        [(''CreateVolumePermission.Add.1.Group'', ''all'')])) (\<lambda>_.
     and_then self_driver (\<lambda>drv.
     and_then get (\<lambda>self.
     and_then (case volume self of
                 None \<Rightarrow> raise AttributeError
               | Some v \<Rightarrow> invoke (ask_unit W) (DestroyVolume drv v)) (\<lambda>_.
     and_then (modify (\<lambda>self. self\<lparr>volume := None\<rparr>)) (\<lambda>_.
       return reg)))))))))))))))))"

definition upload_register :: "config \<Rightarrow> world \<Rightarrow> nat \<Rightarrow> string \<Rightarrow> string \<Rightarrow> unit prog" where
  "upload_register C W fuel compose_meta reg =
     and_then get (\<lambda>self.
     let image_name = image_name_of self reg;
         reg_root = reg_root_device_name_of self
     in
     and_then (case snapshot self of
                 None \<Rightarrow> raise AttributeError
               | Some snap \<Rightarrow>
                   return [\<lparr> DeviceName = reg_root, SnapshotId = snapshot_id snap,
                             VolumeSize = AWS_VOL_SIZE C, VolumeType = vol_type self,
                             DeleteOnTermination = ''true'' \<rparr>]) (\<lambda>mapping.
     and_then (register_image W fuel image_name reg_root mapping) (\<lambda>_.
     and_then get (\<lambda>self.
       case (destination self, image self) of
         (Some dest, Some img) \<Rightarrow>
           invoke (ask_unit W)
             (Message ''image.create'' (raw_url self) dest ''created'' compose_meta
                [(''id'', image_id img), (''virt_type'', virt_type self),
                 (''vol_type'', vol_type self), (''region'', reg)])
       | _ \<Rightarrow> raise AttributeError))))"

definition upload :: "config \<Rightarrow> world \<Rightarrow> nat \<Rightarrow> string \<Rightarrow> unit prog" where
  "upload C W fuel compose_meta =
     and_then (upload_snapshot C W fuel compose_meta) (upload_register C W fuel compose_meta)"

subsection \<open>The batch dispatcher of \<^verbatim>\<open>uploader.py\<close>\<close>

text \<open>
  \<^verbatim>\<open>download_image\<close> and the loop of \<^verbatim>\<open>upload(pool, urls, compose_meta)\<close> that
  downloads each image and collects the services. \<^verbatim>\<open>fedimg.util.virt_types_from_url\<close>
  is not among the sources and is a parameter, as is the directory that
  \<^verbatim>\<open>tempfile.mkdtemp\<close> returns. The loop carries the services collected and the calls
  made so far.
\<close>

definition download_cmd :: "string \<Rightarrow> string \<Rightarrow> string" where
  "download_cmd image_url location = ''wget '' @ image_url @ '' -P '' @ location"

definition services_of_url :: "config \<Rightarrow> (string \<Rightarrow> string list) \<Rightarrow> string \<Rightarrow> string \<Rightarrow> service list" where
  "services_of_url C virt_types_from_url tmpdir url =
     concat (map (\<lambda>vt. [init C url tmpdir vt ''standard'', init C url tmpdir vt ''gp2''])
               (virt_types_from_url url))"

fun collect_services ::
  "config \<Rightarrow> world \<Rightarrow> (string \<Rightarrow> string list) \<Rightarrow> string \<Rightarrow> string list
     \<Rightarrow> service list \<Rightarrow> call list \<Rightarrow> error + service list \<times> call list" where
  "collect_services C W virt_types_from_url tmpdir [] services h = Inr (services, h)"
| "collect_services C W virt_types_from_url tmpdir (url # urls) services h =
     (case ask_output W h (RunSystemCommand (download_cmd url tmpdir)) of
        Inl e \<Rightarrow> Inl e
      | Inr _ \<Rightarrow>
          collect_services C W virt_types_from_url tmpdir urls
            (services @ services_of_url C virt_types_from_url tmpdir url)
            (h @ [RunSystemCommand (download_cmd url tmpdir)]))"

text \<open>
  \<^verbatim>\<open>pool.map(lambda s: s.upload(compose_meta), services)\<close>: one run of \<^verbatim>\<open>upload\<close>
  per collected service. The pool and the interleaving of its workers are outside the
  model: each run is taken on its own, from its own service object and an empty trace.
\<close>

definition uploader_upload ::
  "config \<Rightarrow> world \<Rightarrow> (string \<Rightarrow> string list) \<Rightarrow> nat \<Rightarrow> string \<Rightarrow> string list \<Rightarrow> string
     \<Rightarrow> error + (unit outcome \<times> state) list" where
  "uploader_upload C W virt_types_from_url fuel tmpdir urls compose_meta =
     (case collect_services C W virt_types_from_url tmpdir urls [] [] of
        Inl e \<Rightarrow> Inl e
      | Inr (services, h) \<Rightarrow> Inr (map (\<lambda>s. upload C W fuel compose_meta (s, [])) services))"

subsection \<open>Observations on traces, and the wording of the specification\<close>

text \<open>The registrations requested in a trace, in order, and their names.\<close>

fun registrations :: "call list \<Rightarrow> registration list" where
  "registrations [] = []"
| "registrations (ExRegisterImage d r # cs) = r # registrations cs"
| "registrations (c # cs) = registrations cs"

definition attempted_names :: "entry list \<Rightarrow> string list" where
  "attempted_names tr = map reg_name (registrations (calls tr))"

text \<open>
  A token of the lexical pattern ``literal followed by \<open>k\<close> identifier characters'', and
  its occurrence somewhere in a text, as the specification words it.
\<close>

definition is_token :: "string \<Rightarrow> nat \<Rightarrow> string \<Rightarrow> bool" where
  "is_token lit k tok =
     (take (length lit) tok = lit \<and> length tok = length lit + k
      \<and> list_all is_word (drop (length lit) tok))"

fun token_occurs :: "string \<Rightarrow> nat \<Rightarrow> string \<Rightarrow> bool" where
  "token_occurs lit k [] = is_token lit k []"
| "token_occurs lit k (c # cs) =
     (is_token lit k (take (length lit + k) (c # cs)) \<or> token_occurs lit k cs)"

text \<open>The occurrence the code looks for: the token right after a whitespace character,
  \<open>pre\<close> being the text before that character.\<close>

definition ws_occurrence :: "string \<Rightarrow> nat \<Rightarrow> string \<Rightarrow> string \<Rightarrow> string \<Rightarrow> bool" where
  "ws_occurrence lit k s pre tok =
     (\<exists>c post. s = pre @ c # tok @ post \<and> is_space c \<and> is_token lit k tok)"

text \<open>
  The name the specification expects after a duplicate: the final maximal digit run of
  the name replaced by its value plus one, everything else unchanged. (A name without a
  digit has no such run and is left as it is.)
\<close>

fun nat_of_digits :: "nat \<Rightarrow> string \<Rightarrow> nat" where
  "nat_of_digits acc [] = acc"
| "nat_of_digits acc (c # cs) = nat_of_digits (10 * acc + int_digit c) cs"

definition increment_final_number :: "string \<Rightarrow> string" where
  "increment_final_number name =
     (let tail = rev (takeWhile (\<lambda>c. \<not> is_digit c) (rev name));
          rest = rev (dropWhile (\<lambda>c. \<not> is_digit c) (rev name));
          run = rev (takeWhile is_digit (rev rest));
          front = rev (dropWhile is_digit (rev rest))
      in if run = [] then name else front @ str_nat (nat_of_digits 0 run + 1) @ tail)"

subsection \<open>A concrete configuration and a concrete outside world\<close>

text \<open>
  Two regions are configured. The world of the example answers the import command with
  \<open>import_out\<close>, every status query with a completed conversion, and a registration
  under the name \<open>taken\<close> with a duplicate-name error; the volume list is \<open>vols\<close>.
\<close>

definition example_config :: config where
  "example_config =
     \<lparr> AWS_ACCESS_ID = ''id'', AWS_SECRET_KEY = ''key'',
       AWS_REGIONS = ''us-east-1|eu-west-1'', AWS_VOL_SIZE = ''7'',
       AWS_BUCKET_NAME = ''bucket'', get_file_arch = (\<lambda>f. ''x86_64'') \<rparr>"

definition example_world :: "string \<Rightarrow> ec2_volume list \<Rightarrow> string \<Rightarrow> world" where
  "example_world import_out vols taken =
     \<lparr> ask_unit = (\<lambda>h c. Inr ()),
       ask_output = (\<lambda>h c. case c of
           RunSystemCommand cmd \<Rightarrow>
             if take 18 cmd = ''euca-import-volume'' then Inr (import_out, [])
             else Inr (''x completed vol-01234567890abcdef'', [])
         | _ \<Rightarrow> Inr ([], [])),
       ask_zones = (\<lambda>h c. Inr [\<lparr> zone_name = ''us-east-1a'' \<rparr>]),
       ask_volumes = (\<lambda>h c. Inr vols),
       ask_snapshot = (\<lambda>h c. Inr \<lparr> snapshot_id = ''snap-1'', snapshot_state = ''pending'' \<rparr>),
       ask_snapshots = (\<lambda>h c.
           Inr [\<lparr> snapshot_id = ''snap-1'', snapshot_state = ''completed'' \<rparr>]),
       ask_image = (\<lambda>h c. case c of
           ExRegisterImage d r \<Rightarrow>
             if reg_name r = taken then Inl (ExternalError ''InvalidAMIName.Duplicate'')
             else Inr \<lparr> image_id = ''ami-1'' \<rparr>
         | _ \<Rightarrow> Inl AttributeError) \<rparr>"

definition example_volume :: ec2_volume where
  "example_volume = \<lparr> volume_id = ''vol-01234567890abcdef'' \<rparr>"

definition example_service :: service where
  "example_service = init example_config ''http://host/f19.raw.xz'' ''/tmp/d'' ''hvm'' ''gp2''"

text \<open>A batch of three images, each with the two virtualization types.\<close>

definition example_urls :: "string list" where
  "example_urls = [''http://host/a.raw.xz'', ''http://host/b.raw.xz'', ''http://host/c.raw.xz'']"

definition example_virt_types :: "string \<Rightarrow> string list" where
  "example_virt_types url = [''paravirtual'', ''hvm'']"

subsection \<open>Invariants of programs\<close>

text \<open>
  The trace entry that a call made by \<open>self\<close> leaves, and what it means for a program to
  maintain a predicate on states: whenever it starts in a state that satisfies the
  predicate it ends in one that does, whether it returns, raises or runs out of fuel.
\<close>

abbreviation entry_of :: "service \<Rightarrow> call \<Rightarrow> entry" where
  "entry_of self c \<equiv> \<lparr> at_volume = volume self, at_snapshot = snapshot self, the_call = c \<rparr>"

definition maintains :: "(state \<Rightarrow> bool) \<Rightarrow> 'a prog \<Rightarrow> bool" where
  "maintains I m = (\<forall>s. I s \<longrightarrow> I (snd (m s)))"

text \<open>What holds of the result and the final state whenever a program returns.\<close>

definition on_return :: "('a \<Rightarrow> state \<Rightarrow> bool) \<Rightarrow> 'a prog \<Rightarrow> bool" where
  "on_return Q m = (\<forall>s x. fst (m s) = Returns x \<longrightarrow> Q x (snd (m s)))"

text \<open>
  A call targets the region \<open>r\<close>: a notification names the destination \<open>EC2 (r)\<close> (and
  the region \<open>r\<close> among its extra fields, when it has any), a command is one of the two
  command lines of the service with \<open>--region r\<close> and the bucket of \<open>r\<close>, a driver call
  goes to a driver bound to \<open>r\<close>.
\<close>

fun targets :: "string \<Rightarrow> call \<Rightarrow> bool" where
  "targets r (Message topic url dest status meta extra) =
     (dest = ''EC2 ('' @ r @ '')''
      \<and> (extra = [] \<or> (\<exists>i vt volt. extra =
            [(''id'', i), (''virt_type'', vt), (''vol_type'', volt), (''region'', r)])))"
| "targets r (RunSystemCommand cmd) =
     ((\<exists>location img fmt bucket zone.
          cmd = import_cmd location img fmt r (bucket @ ''-'' @ r) zone)
      \<or> (\<exists>task_id. cmd = describe_cmd task_id r))"
| "targets r (ExListAvailabilityZones d only_available) = (driver_region d = r)"
| "targets r (ListVolumes d) = (driver_region d = r)"
| "targets r (CreateVolumeSnapshot d v n) = (driver_region d = r)"
| "targets r (ListSnapshots d) = (driver_region d = r)"
| "targets r (ExModifySnapshotAttribute d snap attrs) = (driver_region d = r)"
| "targets r (DestroyVolume d v) = (driver_region d = r)"
| "targets r (ExRegisterImage d registration) = (driver_region d = r)"
| "targets r (DeleteImage d img) = (driver_region d = r)"
| "targets r (DestroyVolumeSnapshot d snap) = (driver_region d = r)"

text \<open>The invariant of a run in the region \<open>r\<close>.\<close>

definition region_inv :: "string \<Rightarrow> state \<Rightarrow> bool" where
  "region_inv r s =
     (region (fst s) = r
      \<and> (\<forall>d. driver (fst s) = Some d \<longrightarrow> driver_region d = r)
      \<and> (\<forall>dest. destination (fst s) = Some dest \<longrightarrow> dest = ''EC2 ('' @ r @ '')'')
      \<and> list_all (\<lambda>e. targets r (the_call e)) (snd s))"

text \<open>The registrations that the loop requests: the names are the iterates of the
  substitution, everything else is fixed.\<close>

definition registration_of ::
  "service \<Rightarrow> string \<Rightarrow> block_device list \<Rightarrow> string \<Rightarrow> registration" where
  "registration_of self reg_root bdm name =
     \<lparr> reg_name = name, reg_description = image_desc self,
       reg_root_device_name = reg_root, reg_block_device_mapping = bdm,
       reg_virtualization_type = virt_type self, reg_architecture = image_arch self \<rparr>"

text \<open>The attributes that \<^verbatim>\<open>__init__\<close> derives from the job are the same in both
  objects.\<close>

definition same_job :: "service \<Rightarrow> service \<Rightarrow> bool" where
  "same_job self self' =
     (raw_url self' = raw_url self \<and> virt_type self' = virt_type self
      \<and> vol_type self' = vol_type self \<and> cwd self' = cwd self \<and> region self' = region self
      \<and> file_name self' = file_name self \<and> build_name self' = build_name self
      \<and> image_desc self' = image_desc self \<and> image_arch self' = image_arch self)"

text \<open>
  The last steps of the first part of \<^verbatim>\<open>upload\<close>, after the snapshot has been
  created: the snapshot is made shareable, then the volume is destroyed and the Volume
  reference cleared.
\<close>

abbreviation publish_and_destroy :: "world \<Rightarrow> string \<Rightarrow> string prog" where
  "publish_and_destroy W reg \<equiv>
     and_then self_driver (\<lambda>drv.
     and_then get (\<lambda>self.
     and_then (case snapshot self of
                 None \<Rightarrow> raise AttributeError
               | Some snap \<Rightarrow>
                   invoke (ask_unit W)
                     (ExModifySnapshotAttribute drv snap
                        [(''CreateVolumePermission.Add.1.Group'', ''all'')])) (\<lambda>_.
     and_then self_driver (\<lambda>drv.
     and_then get (\<lambda>self.
     and_then (case volume self of
                 None \<Rightarrow> raise AttributeError
               | Some v \<Rightarrow> invoke (ask_unit W) (DestroyVolume drv v)) (\<lambda>_.
     and_then (modify (\<lambda>self. self\<lparr>volume := None\<rparr>)) (\<lambda>_.
       return reg)))))))"

text \<open>
  A program started in a state that satisfies \<open>P\<close> ends in one that satisfies \<open>Q\<close>,
  whether it returns, raises or runs out of fuel.
\<close>

definition ensures :: "(state \<Rightarrow> bool) \<Rightarrow> 'a prog \<Rightarrow> (state \<Rightarrow> bool) \<Rightarrow> bool" where
  "ensures P m Q = (\<forall>s. P s \<longrightarrow> Q (snd (m s)))"

text \<open>
  The references a call is made with. A Snapshot reference is held and complete; a trace
  entry is in order when the call that makes the snapshot shareable is made on the held,
  completed snapshot with the Volume reference still set, the destruction of the volume
  is made on the held volume with the completed snapshot held, and an image registration
  or a notification of the topic \<^verbatim>\<open>image.create\<close> is made with the Volume reference
  \<^verbatim>\<open>None\<close> and the completed snapshot held. The other calls are not constrained.
\<close>

definition held_complete :: "ec2_snapshot option \<Rightarrow> bool" where
  "held_complete snap = (case snap of None \<Rightarrow> False | Some s \<Rightarrow> snapshot_state s = ''completed'')"






text \<open>
  The duplicate-name errors of a run: the registration calls of a list of calls that the
  outside world, asked after the history \<open>hist\<close> and the calls before, answers with an
  error whose text contains \<^verbatim>\<open>InvalidAMIName.Duplicate\<close>.
\<close>

fun is_duplicate_error :: "error + ec2_image \<Rightarrow> bool" where
  "is_duplicate_error (Inl e) = contains ''InvalidAMIName.Duplicate'' (str_error e)"
| "is_duplicate_error (Inr img) = False"

fun duplicate_errors :: "world \<Rightarrow> call list \<Rightarrow> call list \<Rightarrow> nat" where
  "duplicate_errors W hist [] = 0"
| "duplicate_errors W hist (ExRegisterImage d r # cs) =
     (if is_duplicate_error (ask_image W hist (ExRegisterImage d r)) then 1 else 0)
       + duplicate_errors W (hist @ [ExRegisterImage d r]) cs"
| "duplicate_errors W hist (c # cs) = duplicate_errors W (hist @ [c]) cs"

section \<open>Properties\<close>

subsection \<open>Searching the output of the command-line tools\<close>

lemma matches_here_iff:
  "matches_here lit k s \<longleftrightarrow> (\<exists>tok post. s = tok @ post \<and> is_token lit k tok)"
proof
  assume m: "matches_here lit k s"
  let ?tok = "take (length lit + k) s"
  have len: "length lit + k \<le> length s"
    using m by (auto simp: matches_here_def) (metis length_take min.cobounded1 add_le_cancel_left le_diff_conv2 add.commute nat_le_linear take_all)
  have "s = ?tok @ drop (length lit + k) s" by simp
  moreover have "is_token lit k ?tok"
    using m len by (auto simp: matches_here_def is_token_def take_drop min_def add.commute)
  ultimately show "\<exists>tok post. s = tok @ post \<and> is_token lit k tok" by blast
next
  assume "\<exists>tok post. s = tok @ post \<and> is_token lit k tok"
  then obtain tok post where s: "s = tok @ post" and t: "is_token lit k tok" by blast
  from t have "take (length lit) tok = lit" "length tok = length lit + k"
    "list_all is_word (drop (length lit) tok)" by (auto simp: is_token_def)
  then show "matches_here lit k s"
    using s by (auto simp: matches_here_def)
qed

lemma matches_here_take:
  "matches_here lit k s \<Longrightarrow> is_token lit k (take (length lit + k) s)"
  by (auto simp: matches_here_iff is_token_def)

lemma ws_occurrence_Nil_iff:
  "ws_occurrence lit k (c # cs) [] tok \<longleftrightarrow>
     is_space c \<and> matches_here lit k cs \<and> tok = take (length lit + k) cs"
  by (auto simp: ws_occurrence_def matches_here_iff is_token_def)

lemma ws_occurrence_Cons_iff:
  "ws_occurrence lit k (c # cs) (p # pre) tok \<longleftrightarrow> p = c \<and> ws_occurrence lit k cs pre tok"
  by (auto simp: ws_occurrence_def)

lemma ws_occurrence_empty: "\<not> ws_occurrence lit k [] pre tok"
  by (simp add: ws_occurrence_def)

lemma re_search_None_iff:
  "re_search lit k s = None \<longleftrightarrow> (\<forall>pre tok. \<not> ws_occurrence lit k s pre tok)"
proof (induction s)
  case Nil
  show ?case by (simp add: ws_occurrence_empty)
next
  case (Cons c cs)
  show ?case
  proof (cases "is_space c \<and> matches_here lit k cs")
    case True
    then have "ws_occurrence lit k (c # cs) [] (take (length lit + k) cs)"
      by (simp add: ws_occurrence_Nil_iff)
    with True show ?thesis by auto
  next
    case False
    have "(\<forall>pre tok. \<not> ws_occurrence lit k (c # cs) pre tok)
          \<longleftrightarrow> (\<forall>pre tok. \<not> ws_occurrence lit k cs pre tok)"
    proof
      assume a: "\<forall>pre tok. \<not> ws_occurrence lit k (c # cs) pre tok"
      show "\<forall>pre tok. \<not> ws_occurrence lit k cs pre tok"
      proof (intro allI)
        fix pre tok
        from a have "\<not> ws_occurrence lit k (c # cs) (c # pre) tok" by blast
        then show "\<not> ws_occurrence lit k cs pre tok" by (simp add: ws_occurrence_Cons_iff)
      qed
    next
      assume a: "\<forall>pre tok. \<not> ws_occurrence lit k cs pre tok"
      show "\<forall>pre tok. \<not> ws_occurrence lit k (c # cs) pre tok"
      proof (intro allI)
        fix pre tok
        show "\<not> ws_occurrence lit k (c # cs) pre tok"
          using a False by (cases pre) (auto simp: ws_occurrence_Nil_iff ws_occurrence_Cons_iff)
      qed
    qed
    moreover have "re_search lit k (c # cs) = re_search lit k cs"
      using False by auto
    ultimately show ?thesis using Cons by simp
  qed
qed

lemma re_search_Some_leftmost:
  "re_search lit k s = Some tok \<Longrightarrow>
     \<exists>pre. ws_occurrence lit k s pre tok
       \<and> (\<forall>pre' tok'. ws_occurrence lit k s pre' tok' \<longrightarrow>
             length pre \<le> length pre' \<and> (length pre' = length pre \<longrightarrow> tok' = tok))"
proof (induction s)
  case Nil
  then show ?case by simp
next
  case (Cons c cs)
  show ?case
  proof (cases "is_space c \<and> matches_here lit k cs")
    case True
    with Cons.prems have tok: "tok = take (length lit + k) cs" by simp
    have "ws_occurrence lit k (c # cs) [] tok"
      using True tok by (simp add: ws_occurrence_Nil_iff)
    moreover have "\<forall>pre' tok'. ws_occurrence lit k (c # cs) pre' tok' \<longrightarrow>
             length [] \<le> length pre' \<and> (length pre' = length [] \<longrightarrow> tok' = tok)"
      using tok by (auto simp: ws_occurrence_Nil_iff)
    ultimately show ?thesis by blast
  next
    case False
    with Cons.prems have "re_search lit k cs = Some tok" by auto
    from Cons.IH [OF this] obtain pre where
      occ: "ws_occurrence lit k cs pre tok" and
      least: "\<forall>pre' tok'. ws_occurrence lit k cs pre' tok' \<longrightarrow>
             length pre \<le> length pre' \<and> (length pre' = length pre \<longrightarrow> tok' = tok)" by blast
    have "ws_occurrence lit k (c # cs) (c # pre) tok"
      using occ by (simp add: ws_occurrence_Cons_iff)
    moreover have "\<forall>pre' tok'. ws_occurrence lit k (c # cs) pre' tok' \<longrightarrow>
             length (c # pre) \<le> length pre' \<and> (length pre' = length (c # pre) \<longrightarrow> tok' = tok)"
    proof (intro allI impI)
      fix pre' tok'
      assume o: "ws_occurrence lit k (c # cs) pre' tok'"
      show "length (c # pre) \<le> length pre' \<and> (length pre' = length (c # pre) \<longrightarrow> tok' = tok)"
      proof (cases pre')
        case Nil
        with o False show ?thesis by (simp add: ws_occurrence_Nil_iff)
      next
        case (Cons p ps)
        with o have "ws_occurrence lit k cs ps tok'" by (simp add: ws_occurrence_Cons_iff)
        with least have "length pre \<le> length ps \<and> (length ps = length pre \<longrightarrow> tok' = tok)" by blast
        with Cons show ?thesis by simp
      qed
    qed
    ultimately show ?thesis by blast
  qed
qed

lemma contains_iff: "contains sub s \<longleftrightarrow> (\<exists>pre post. s = pre @ sub @ post)"
proof (induction s)
  case Nil
  show ?case by auto
next
  case (Cons c cs)
  have "take (length sub) (c # cs) = sub \<longleftrightarrow> (\<exists>post. c # cs = sub @ post)"
    by (metis append_eq_conv_conj append_take_drop_id)
  moreover have "(\<exists>pre post. c # cs = pre @ sub @ post)
      \<longleftrightarrow> (\<exists>post. c # cs = sub @ post) \<or> (\<exists>pre post. cs = pre @ sub @ post)"
  proof
    assume "\<exists>pre post. c # cs = pre @ sub @ post"
    then obtain pre post where e: "c # cs = pre @ sub @ post" by blast
    show "(\<exists>post. c # cs = sub @ post) \<or> (\<exists>pre post. cs = pre @ sub @ post)"
    proof (cases pre)
      case Nil
      with e show ?thesis by auto
    next
      case (Cons p ps)
      with e have "cs = ps @ sub @ post" by simp
      then show ?thesis by blast
    qed
  next
    assume "(\<exists>post. c # cs = sub @ post) \<or> (\<exists>pre post. cs = pre @ sub @ post)"
    then show "\<exists>pre post. c # cs = pre @ sub @ post"
    proof
      assume "\<exists>post. c # cs = sub @ post"
      then obtain post where "c # cs = [] @ sub @ post" by auto
      then show ?thesis by blast
    next
      assume "\<exists>pre post. cs = pre @ sub @ post"
      then obtain pre post where "cs = pre @ sub @ post" by blast
      then have "c # cs = (c # pre) @ sub @ post" by simp
      then show ?thesis by blast
    qed
  qed
  ultimately show ?case using Cons by simp
qed

subsection \<open>Single steps of a program\<close>

lemma invoke_ok:
  "ask (calls tr) c = Inr x \<Longrightarrow>
     invoke ask c (self, tr) =
       (Returns x, (self, tr @ [\<lparr> at_volume = volume self, at_snapshot = snapshot self, the_call = c \<rparr>]))"
  by (simp add: invoke_def)

lemma invoke_fails:
  "ask (calls tr) c = Inl e \<Longrightarrow>
     invoke ask c (self, tr) =
       (Raises e, (self, tr @ [\<lparr> at_volume = volume self, at_snapshot = snapshot self, the_call = c \<rparr>]))"
  by (simp add: invoke_def)

lemma calls_append: "calls (tr @ tr') = calls tr @ calls tr'"
  by (simp add: calls_def)

lemma calls_single: "calls [e] = [the_call e]"
  by (simp add: calls_def)

lemma example_service_refs:
  "volume example_service = None" "image example_service = None"
  "snapshot example_service = None" "driver example_service = None"
  by (simp_all add: example_service_def init_def Let_def)

subsection \<open>The name tried after a duplicate-name error\<close>

text \<open>
  C1. The claim: after a duplicate-name error the registrar retries with the name whose
  final maximal digit run is incremented by one as an integer, all other characters
  unchanged (\<open>foo-19\<close> becomes \<open>foo-20\<close>). The comment in \<^verbatim>\<open>register_image\<close> says the
  same (``incrementing the number at the end of the image name''), but the pattern
  \<^verbatim>\<open>\d(?!\d)\<close> matches the last digit of every digit run and only that digit is
  incremented: after a duplicate on \<open>foo-19\<close> the registrar tries \<open>foo-110\<close>, and in a
  name as \<^verbatim>\<open>upload\<close> builds it the digits of the build name, of the region and of the
  volume type change too.
\<close>

theorem register_image_retries_with_wrong_name:
  "attempted_names (snd (snd (register_image (example_world [] [] ''foo-19'') 2
       ''foo-19'' ''/dev/sda1'' []
       (example_service\<lparr>driver := Some (Driver ''us-east-1'' ''id'' ''key'')\<rparr>, []))))
     = [''foo-19'', ''foo-110'']
   \<and> increment_final_number ''foo-19'' = ''foo-20''
   \<and> re_sub_digit ''f25-us-east-1-HVM-gp2-0'' = ''f26-us-east-2-HVM-gp3-1''
   \<and> increment_final_number ''f25-us-east-1-HVM-gp2-0'' = ''f25-us-east-1-HVM-gp2-1''"
  by code_simp

subsection \<open>The cleanup routine\<close>

text \<open>
  C2, as amended. The claim has the snapshot destroyed whenever a Snapshot reference is
  held, with or without an Image reference; the guard of the code is
  \<^verbatim>\<open>self.snapshot and self.image is not None\<close>. With a driver whose calls succeed,
  cleanup returns; it requests the deletion of the image exactly when \<^verbatim>\<open>delete_images\<close>
  is true and an Image reference is held; it destroys the snapshot and clears the
  Snapshot reference exactly when a Snapshot reference and an Image reference are both
  held, and otherwise leaves the Snapshot reference as it is.
\<close>

theorem clean_up_effect:
  assumes "\<forall>h c. ask_unit W h c = Inr ()"
  shows "fst (clean_up W drv delete_images (self, tr)) = Returns ()
     \<and> fst (snd (clean_up W drv delete_images (self, tr)))
         = self\<lparr>snapshot := (if image self = None then snapshot self else None)\<rparr>
     \<and> calls (snd (snd (clean_up W drv delete_images (self, tr))))
         = calls tr
           @ (case image self of
                None \<Rightarrow> []
              | Some img \<Rightarrow>
                  (if delete_images then [DeleteImage drv img] else [])
                  @ (case snapshot self of None \<Rightarrow> [] | Some snap \<Rightarrow> [DestroyVolumeSnapshot drv snap]))"
  using assms
  by (cases "image self"; cases "snapshot self"; cases delete_images)
     (simp_all add: clean_up_def and_then_def get_def return_def modify_def invoke_def calls_def)

text \<open>The theorem at a state that holds an Image and a Snapshot reference.\<close>

theorem clean_up_effect_witness:
  "(\<forall>h c. ask_unit (example_world [] [] []) h c = Inr ())
   \<and> calls (snd (snd (clean_up (example_world [] [] []) (Driver ''us-east-1'' ''id'' ''key'') True
        (example_service\<lparr>image := Some \<lparr>image_id = ''ami-1''\<rparr>,
            snapshot := Some \<lparr>snapshot_id = ''snap-1'', snapshot_state = ''completed''\<rparr>\<rparr>, []))))
     = [DeleteImage (Driver ''us-east-1'' ''id'' ''key'') \<lparr>image_id = ''ami-1''\<rparr>,
        DestroyVolumeSnapshot (Driver ''us-east-1'' ''id'' ''key'')
          \<lparr>snapshot_id = ''snap-1'', snapshot_state = ''completed''\<rparr>]"
proof -
  have h: "\<forall>h c. ask_unit (example_world [] [] []) h c = Inr ()"
    by (simp add: example_world_def)
  show ?thesis
    using h clean_up_effect [OF h, of "Driver ''us-east-1'' ''id'' ''key''" True
        "example_service\<lparr>image := Some \<lparr>image_id = ''ami-1''\<rparr>,
            snapshot := Some \<lparr>snapshot_id = ''snap-1'', snapshot_state = ''completed''\<rparr>\<rparr>" "[]"]
    by (simp add: calls_def)
qed

text \<open>
  C2 as it is stated fails: with a Snapshot reference and no Image reference, cleanup
  calls nothing and keeps the Snapshot reference.
\<close>

theorem clean_up_keeps_snapshot_counterexample:
  "clean_up (example_world [] [] []) (Driver ''us-east-1'' ''id'' ''key'') True
     (example_service\<lparr>snapshot := Some \<lparr>snapshot_id = ''snap-1'', snapshot_state = ''completed''\<rparr>\<rparr>, [])
   = (Returns (),
      (example_service\<lparr>snapshot := Some \<lparr>snapshot_id = ''snap-1'', snapshot_state = ''completed''\<rparr>\<rparr>, []))"
  by (simp add: clean_up_def and_then_def get_def return_def example_service_refs)

text \<open>
  C7, as amended. The claim has a second cleanup find every reference cleared and call
  nothing; cleanup never clears the Image reference. After a cleanup that returned, a
  second one with the same flag changes nothing and calls nothing when
  \<^verbatim>\<open>delete_images\<close> is false or no Image reference is held; when \<^verbatim>\<open>delete_images\<close> is
  true and an Image reference is held, it requests the deletion of that image once more,
  and does nothing else.
\<close>

theorem clean_up_twice:
  assumes "clean_up W drv delete_images (self, tr) = (Returns (), s1)"
  shows "(\<not> delete_images \<or> image self = None \<longrightarrow>
            clean_up W drv delete_images s1 = (Returns (), s1))
       \<and> (\<forall>img. delete_images \<and> image self = Some img \<longrightarrow>
            fst (snd (clean_up W drv delete_images s1)) = fst s1
            \<and> calls (snd (snd (clean_up W drv delete_images s1)))
                = calls (snd s1) @ [DeleteImage drv img])"
  using assms
  by (cases "image self"; cases "snapshot self"; cases delete_images;
      cases "ask_unit W (calls tr) (DeleteImage drv (the (image self)))")
     (auto simp add: clean_up_def and_then_def get_def return_def modify_def invoke_def calls_def
       split: sum.splits if_splits)

text \<open>The theorem at a state that holds both references, without \<^verbatim>\<open>delete_images\<close>:
  the first cleanup destroys the snapshot, the second one does nothing.\<close>

theorem clean_up_twice_witness:
  "clean_up (example_world [] [] []) (Driver ''us-east-1'' ''id'' ''key'') False
      (example_service\<lparr>image := Some \<lparr>image_id = ''ami-1''\<rparr>,
          snapshot := Some \<lparr>snapshot_id = ''snap-1'', snapshot_state = ''completed''\<rparr>\<rparr>, [])
    = (Returns (),
       (example_service\<lparr>image := Some \<lparr>image_id = ''ami-1''\<rparr>, snapshot := None\<rparr>,
        [\<lparr>at_volume = None,
          at_snapshot = Some \<lparr>snapshot_id = ''snap-1'', snapshot_state = ''completed''\<rparr>,
          the_call = DestroyVolumeSnapshot (Driver ''us-east-1'' ''id'' ''key'')
             \<lparr>snapshot_id = ''snap-1'', snapshot_state = ''completed''\<rparr>\<rparr>]))
   \<and> clean_up (example_world [] [] []) (Driver ''us-east-1'' ''id'' ''key'') False
        (example_service\<lparr>image := Some \<lparr>image_id = ''ami-1''\<rparr>, snapshot := None\<rparr>,
        [\<lparr>at_volume = None,
          at_snapshot = Some \<lparr>snapshot_id = ''snap-1'', snapshot_state = ''completed''\<rparr>,
          the_call = DestroyVolumeSnapshot (Driver ''us-east-1'' ''id'' ''key'')
             \<lparr>snapshot_id = ''snap-1'', snapshot_state = ''completed''\<rparr>\<rparr>])
    = (Returns (),
       (example_service\<lparr>image := Some \<lparr>image_id = ''ami-1''\<rparr>, snapshot := None\<rparr>,
        [\<lparr>at_volume = None,
          at_snapshot = Some \<lparr>snapshot_id = ''snap-1'', snapshot_state = ''completed''\<rparr>,
          the_call = DestroyVolumeSnapshot (Driver ''us-east-1'' ''id'' ''key'')
             \<lparr>snapshot_id = ''snap-1'', snapshot_state = ''completed''\<rparr>\<rparr>]))"
proof -
  have first: "clean_up (example_world [] [] []) (Driver ''us-east-1'' ''id'' ''key'') False
      (example_service\<lparr>image := Some \<lparr>image_id = ''ami-1''\<rparr>,
          snapshot := Some \<lparr>snapshot_id = ''snap-1'', snapshot_state = ''completed''\<rparr>\<rparr>, [])
    = (Returns (),
       (example_service\<lparr>image := Some \<lparr>image_id = ''ami-1''\<rparr>, snapshot := None\<rparr>,
        [\<lparr>at_volume = None,
          at_snapshot = Some \<lparr>snapshot_id = ''snap-1'', snapshot_state = ''completed''\<rparr>,
          the_call = DestroyVolumeSnapshot (Driver ''us-east-1'' ''id'' ''key'')
             \<lparr>snapshot_id = ''snap-1'', snapshot_state = ''completed''\<rparr>\<rparr>]))"
    by (simp add: clean_up_def and_then_def get_def return_def modify_def invoke_def
          example_service_refs example_world_def calls_def)
  show ?thesis
    using first clean_up_twice [OF first] by simp
qed

text \<open>
  C7 as it is stated fails: with \<^verbatim>\<open>delete_images\<close> and an Image reference held, the
  second cleanup calls the driver again, so that two cleanups make three calls where one
  makes two.
\<close>

theorem clean_up_twice_counterexample:
  "calls (snd (snd (clean_up (example_world [] [] []) (Driver ''us-east-1'' ''id'' ''key'') True
      (example_service\<lparr>image := Some \<lparr>image_id = ''ami-1''\<rparr>,
          snapshot := Some \<lparr>snapshot_id = ''snap-1'', snapshot_state = ''completed''\<rparr>\<rparr>, []))))
     = [DeleteImage (Driver ''us-east-1'' ''id'' ''key'') \<lparr>image_id = ''ami-1''\<rparr>,
        DestroyVolumeSnapshot (Driver ''us-east-1'' ''id'' ''key'')
          \<lparr>snapshot_id = ''snap-1'', snapshot_state = ''completed''\<rparr>]
   \<and> calls (snd (snd (clean_up (example_world [] [] []) (Driver ''us-east-1'' ''id'' ''key'') True
        (snd (clean_up (example_world [] [] []) (Driver ''us-east-1'' ''id'' ''key'') True
          (example_service\<lparr>image := Some \<lparr>image_id = ''ami-1''\<rparr>,
             snapshot := Some \<lparr>snapshot_id = ''snap-1'', snapshot_state = ''completed''\<rparr>\<rparr>, []))))))
     = [DeleteImage (Driver ''us-east-1'' ''id'' ''key'') \<lparr>image_id = ''ami-1''\<rparr>,
        DestroyVolumeSnapshot (Driver ''us-east-1'' ''id'' ''key'')
          \<lparr>snapshot_id = ''snap-1'', snapshot_state = ''completed''\<rparr>,
        DeleteImage (Driver ''us-east-1'' ''id'' ''key'') \<lparr>image_id = ''ami-1''\<rparr>]"
  by (simp add: clean_up_def and_then_def get_def return_def modify_def invoke_def
          example_service_refs example_world_def calls_def)

subsection \<open>The status of a conversion task\<close>

text \<open>
  C4, as amended. The claim asks for a token \<open>vol-\<close> followed by 17 identifier
  characters anywhere in the output; the pattern of the code is \<^verbatim>\<open>\s(vol-\w{17})\<close>, so
  the token counts only right after a whitespace character. For every output of the
  status query: without the substring \<open>completed\<close> the poller reports ``not yet'' (the
  empty string, no error), whatever else the output holds; with \<open>completed\<close> and such a
  token after a whitespace character it returns the leftmost one; with \<open>completed\<close> and
  no such token after a whitespace character it fails (the \<^verbatim>\<open>AttributeError\<close> of
  \<^verbatim>\<open>match.group\<close> on a failed search, the malformed-status condition). The last part
  is the poll itself: an attempt that fails raises, ``not yet'' starts the next attempt,
  and a volume id is returned.
\<close>

theorem conversion_status_cases:
  "(\<not> contains ''completed'' out \<longrightarrow> conversion_status out = Inr [])
   \<and> (contains ''completed'' out \<and> ws_occurrence ''vol-'' 17 out pre tok \<longrightarrow>
        (\<exists>pre' tok'. conversion_status out = Inr tok' \<and> ws_occurrence ''vol-'' 17 out pre' tok'
           \<and> length pre' \<le> length pre \<and> (length pre' = length pre \<longrightarrow> tok' = tok)))
   \<and> (contains ''completed'' out \<and> (\<forall>pre tok. \<not> ws_occurrence ''vol-'' 17 out pre tok) \<longrightarrow>
        conversion_status out = Inl AttributeError)
   \<and> (ask_output W (calls tr) (RunSystemCommand (describe_cmd task_id reg)) = Inr (out, err) \<longrightarrow>
        describe_conversion_tasks W (Suc n) task_id reg (self, tr) =
          (let tr' = tr @ [\<lparr> at_volume = volume self, at_snapshot = snapshot self,
                             the_call = RunSystemCommand (describe_cmd task_id reg) \<rparr>]
           in case conversion_status out of
                Inl e \<Rightarrow> (Raises e, (self, tr'))
              | Inr vid \<Rightarrow> if vid = [] then describe_conversion_tasks W n task_id reg (self, tr')
                           else (Returns vid, (self, tr'))))"
proof (intro conjI impI)
  assume "\<not> contains ''completed'' out"
  then show "conversion_status out = Inr []" by (simp add: conversion_status_def)
next
  assume a: "contains ''completed'' out \<and> ws_occurrence ''vol-'' 17 out pre tok"
  then have "re_search ''vol-'' 17 out \<noteq> None"
    using re_search_None_iff [of "''vol-''" 17 out] by blast
  then obtain t where t: "re_search ''vol-'' 17 out = Some t" by blast
  from re_search_Some_leftmost [OF t] obtain p where
    p: "ws_occurrence ''vol-'' 17 out p t" and
    least: "\<forall>pre' tok'. ws_occurrence ''vol-'' 17 out pre' tok' \<longrightarrow>
             length p \<le> length pre' \<and> (length pre' = length p \<longrightarrow> tok' = t)" by blast
  from least a have "length p \<le> length pre \<and> (length pre = length p \<longrightarrow> tok = t)" by blast
  moreover have "conversion_status out = Inr t"
    using a t by (simp add: conversion_status_def)
  ultimately show "\<exists>pre' tok'. conversion_status out = Inr tok' \<and> ws_occurrence ''vol-'' 17 out pre' tok'
           \<and> length pre' \<le> length pre \<and> (length pre' = length pre \<longrightarrow> tok' = tok)"
    using p by auto
next
  assume a: "contains ''completed'' out \<and> (\<forall>pre tok. \<not> ws_occurrence ''vol-'' 17 out pre tok)"
  then have "re_search ''vol-'' 17 out = None"
    using re_search_None_iff [of "''vol-''" 17 out] by blast
  with a show "conversion_status out = Inl AttributeError"
    by (simp add: conversion_status_def)
next
  assume "ask_output W (calls tr) (RunSystemCommand (describe_cmd task_id reg)) = Inr (out, err)"
  then show "describe_conversion_tasks W (Suc n) task_id reg (self, tr) =
          (let tr' = tr @ [\<lparr> at_volume = volume self, at_snapshot = snapshot self,
                             the_call = RunSystemCommand (describe_cmd task_id reg) \<rparr>]
           in case conversion_status out of
                Inl e \<Rightarrow> (Raises e, (self, tr'))
              | Inr vid \<Rightarrow> if vid = [] then describe_conversion_tasks W n task_id reg (self, tr')
                           else (Returns vid, (self, tr')))"
    by (simp add: describe_conversion_tasks_def describe_conversion_tasks_attempt_def
          and_then_def invoke_def raise_def return_def retry_if_result_false_str_def Let_def
          split: sum.splits)
qed

lemma example_occurrence:
  "ws_occurrence ''vol-'' 17 ''x completed vol-01234567890abcdef'' ''x completed'' ''vol-01234567890abcdef''"
  unfolding ws_occurrence_def
  by (rule exI [of _ "CHR '' ''"], rule exI [of _ "[]"])
     (simp add: is_space_def is_token_def is_word_def)

text \<open>The theorem at an output with \<open>completed\<close> and a volume id after a blank.\<close>

theorem conversion_status_cases_witness:
  "contains ''completed'' ''x completed vol-01234567890abcdef''
   \<and> ws_occurrence ''vol-'' 17 ''x completed vol-01234567890abcdef'' ''x completed'' ''vol-01234567890abcdef''
   \<and> (\<exists>pre' tok'. conversion_status ''x completed vol-01234567890abcdef'' = Inr tok'
         \<and> ws_occurrence ''vol-'' 17 ''x completed vol-01234567890abcdef'' pre' tok'
         \<and> length pre' \<le> length ''x completed'')"
proof -
  have c: "contains ''completed'' ''x completed vol-01234567890abcdef''" by code_simp
  show ?thesis
    using c example_occurrence
      conversion_status_cases [of "''x completed vol-01234567890abcdef''" "''x completed''"
        "''vol-01234567890abcdef''"]
    by blast
qed

text \<open>
  C4 as it is stated fails: this output contains \<open>completed\<close> and a token \<open>vol-\<close> with
  17 identifier characters, at its start and so after no whitespace character, and the
  poller fails on it instead of returning the volume id.
\<close>

theorem conversion_status_counterexample:
  "contains ''completed'' ''vol-01234567890abcdef completed''
   \<and> token_occurs ''vol-'' 17 ''vol-01234567890abcdef completed''
   \<and> conversion_status ''vol-01234567890abcdef completed'' = Inl AttributeError"
  by code_simp

subsection \<open>The batch dispatcher\<close>

lemma length_services_of_url:
  "length (services_of_url C vts tmpdir url) = 2 * length (vts url)"
  by (simp add: services_of_url_def length_concat comp_def sum_list_triv)

lemma collect_services_returns:
  assumes "\<forall>h u. \<exists>r. ask_output W h (RunSystemCommand (download_cmd u tmpdir)) = Inr r"
  shows "\<exists>h'. collect_services C W vts tmpdir urls services h
           = Inr (services @ concat (map (services_of_url C vts tmpdir) urls), h')"
proof (induction urls arbitrary: services h)
  case Nil
  show ?case by simp
next
  case (Cons url urls)
  from assms obtain r where
    r: "ask_output W h (RunSystemCommand (download_cmd url tmpdir)) = Inr r" by blast
  from Cons [of "services @ services_of_url C vts tmpdir url"
      "h @ [RunSystemCommand (download_cmd url tmpdir)]"]
  show ?case using r by simp
qed

lemma uploader_upload_runs:
  assumes "\<forall>h u. \<exists>r. ask_output W h (RunSystemCommand (download_cmd u tmpdir)) = Inr r"
  shows "uploader_upload C W vts fuel tmpdir urls compose_meta
           = Inr (map (\<lambda>s. upload C W fuel compose_meta (s, []))
                    (concat (map (services_of_url C vts tmpdir) urls)))"
proof -
  from collect_services_returns [OF assms, of C vts urls "[]" "[]"]
  obtain h' where "collect_services C W vts tmpdir urls [] []
      = Inr (concat (map (services_of_url C vts tmpdir) urls), h')" by auto
  then show ?thesis by (simp add: uploader_upload_def)
qed

lemma length_all_services:
  "length (concat (map (services_of_url C vts tmpdir) urls))
     = 2 * sum_list (map (\<lambda>u. length (vts u)) urls)"
  by (induction urls) (simp_all add: length_services_of_url)

lemma sum_list_const:
  "\<forall>u\<in>set urls. f u = (k::nat) \<Longrightarrow> sum_list (map f urls) = k * length urls"
  by (induction urls) simp_all

text \<open>
  C9, as amended. The claim counts six runs for three URLs with two virtualization types
  each; the loop of the dispatcher appends two services for every virtualization type,
  one with volume type \<open>standard\<close> and one with \<open>gp2\<close>. When the downloads succeed, a
  batch of three URLs with two virtualization types each creates and dispatches exactly
  twelve runs, one for each triple of URL, virtualization type and volume type, in the
  order of the loop.
\<close>

theorem uploader_dispatches_twelve:
  assumes "length urls = 3"
    and "\<forall>u\<in>set urls. length (vts u) = 2"
    and "\<forall>h u. \<exists>r. ask_output W h (RunSystemCommand (download_cmd u tmpdir)) = Inr r"
  shows "\<exists>runs. uploader_upload C W vts fuel tmpdir urls compose_meta = Inr runs
           \<and> runs = map (\<lambda>s. upload C W fuel compose_meta (s, []))
                      (concat (map (\<lambda>url. concat (map (\<lambda>vt.
                           [init C url tmpdir vt ''standard'', init C url tmpdir vt ''gp2''])
                         (vts url))) urls))
           \<and> length runs = 12"
proof -
  have "sum_list (map (\<lambda>u. length (vts u)) urls) = 2 * length urls"
    using assms(2) by (rule sum_list_const)
  then have "length (concat (map (services_of_url C vts tmpdir) urls)) = 12"
    using assms(1) by (simp add: length_all_services)
  moreover have "concat (map (services_of_url C vts tmpdir) urls)
      = concat (map (\<lambda>url. concat (map (\<lambda>vt.
                           [init C url tmpdir vt ''standard'', init C url tmpdir vt ''gp2''])
                         (vts url))) urls)"
    by (rule arg_cong [where f = concat], rule map_cong) (simp_all add: services_of_url_def)
  ultimately show ?thesis
    using uploader_upload_runs [OF assms(3), of C vts fuel urls compose_meta] by simp
qed

lemma example_downloads:
  "\<forall>h u. \<exists>r. ask_output (example_world [] [] []) h (RunSystemCommand (download_cmd u ''/tmp/d'')) = Inr r"
  by (simp add: example_world_def)

text \<open>The theorem at the batch of the example.\<close>

theorem uploader_dispatches_twelve_witness:
  "\<exists>runs. uploader_upload example_config (example_world [] [] []) example_virt_types 0 ''/tmp/d''
             example_urls ''meta'' = Inr runs
         \<and> length runs = 12"
proof -
  have l: "length example_urls = 3"
    by (simp add: example_urls_def)
  have v: "\<forall>u\<in>set example_urls. length (example_virt_types u) = 2"
    by (simp add: example_virt_types_def)
  show ?thesis
    using uploader_dispatches_twelve [OF l v example_downloads, of example_config 0 "''meta''"]
    by blast
qed

text \<open>C9 as it is stated fails: the batch of the example dispatches twelve runs, not six.\<close>

theorem uploader_six_runs_counterexample:
  "map_sum id length
     (uploader_upload example_config (example_world [] [] []) example_virt_types 0 ''/tmp/d''
        example_urls ''meta'') = Inr 12"
proof -
  have "length (concat (map (services_of_url example_config example_virt_types ''/tmp/d'')
          example_urls)) = 12"
    by (simp only: length_all_services) (simp add: example_urls_def example_virt_types_def)
  then show ?thesis
    using uploader_upload_runs [OF example_downloads, of example_config example_virt_types 0
        example_urls "''meta''"]
    by simp
qed

subsection \<open>Rules for invariants\<close>

lemma maintainsD: "maintains I m \<Longrightarrow> I s \<Longrightarrow> I (snd (m s))"
  unfolding maintains_def by blast

lemma maintainsI: "(\<And>s. I s \<Longrightarrow> I (snd (m s))) \<Longrightarrow> maintains I m"
  unfolding maintains_def by blast

lemma maintains_return: "maintains I (return x)"
  by (rule maintainsI) (simp add: return_def)

lemma maintains_raise: "maintains I (raise e)"
  by (rule maintainsI) (simp add: raise_def)

lemma maintains_get: "maintains I get"
  by (rule maintainsI) (simp add: get_def split_def)

lemma maintains_modify:
  "(\<And>self tr. I (self, tr) \<Longrightarrow> I (f self, tr)) \<Longrightarrow> maintains I (modify f)"
  by (rule maintainsI) (simp add: modify_def split_def)

lemma maintains_invoke:
  "(\<And>self tr. I (self, tr) \<Longrightarrow> I (self, tr @ [entry_of self c])) \<Longrightarrow> maintains I (invoke ask c)"
  by (rule maintainsI) (simp add: invoke_def split_def)

lemma maintains_and_then:
  assumes m: "maintains I m" and f: "\<And>x. maintains I (f x)"
  shows "maintains I (and_then m f)"
proof (rule maintainsI)
  fix s
  assume i: "I s"
  obtain out s' where ms: "m s = (out, s')" by (cases "m s")
  have s': "I s'" using maintainsD [OF m i] ms by simp
  show "I (snd (and_then m f s))"
  proof (cases out)
    case (Returns x)
    then show ?thesis using ms maintainsD [OF f s', of x] by (simp add: and_then_def)
  next
    case (Raises e)
    then show ?thesis using ms s' by (simp add: and_then_def)
  next
    case OutOfFuel
    then show ?thesis using ms s' by (simp add: and_then_def)
  qed
qed

text \<open>What the continuation may assume about the object it has just read.\<close>

lemma maintains_get_then:
  assumes "\<And>self. maintains (\<lambda>s. I s \<and> P self) (f self)"
    and "\<And>self tr. I (self, tr) \<Longrightarrow> P self"
  shows "maintains I (and_then get f)"
proof (rule maintainsI)
  fix s
  assume i: "I s"
  obtain self tr where s: "s = (self, tr)" by (cases s)
  with i assms(2) have "I s \<and> P self" by blast
  from maintainsD [OF assms(1), of s self, OF this]
  show "I (snd (and_then get f s))"
    using s by (simp add: and_then_def get_def)
qed

lemma maintains_self_driver_then:
  assumes "\<And>d. maintains (\<lambda>s. I s \<and> driver (fst s) = Some d) (f d)"
  shows "maintains I (and_then self_driver f)"
proof (rule maintainsI)
  fix s
  assume i: "I s"
  obtain self tr where s: "s = (self, tr)" by (cases s)
  show "I (snd (and_then self_driver f s))"
  proof (cases "driver self")
    case None
    then show ?thesis
      using i s by (simp add: and_then_def self_driver_def get_def raise_def)
  next
    case (Some d)
    then have "I s \<and> driver (fst s) = Some d" using i s by simp
    from maintainsD [OF assms, of s d, OF this]
    show ?thesis
      using s Some by (simp add: and_then_def self_driver_def get_def return_def)
  qed
qed

lemma maintains_retry: "maintains I m \<Longrightarrow> maintains I (retry n not_yet m)"
proof (induction n)
  case 0
  show ?case by (rule maintainsI) simp
next
  case (Suc n)
  then show ?case by (auto intro!: maintains_and_then maintains_return)
qed

lemma maintains_case_option:
  "maintains I a \<Longrightarrow> (\<And>y. maintains I (b y)) \<Longrightarrow> maintains I (case x of None \<Rightarrow> a | Some y \<Rightarrow> b y)"
  by (cases x) auto

lemma maintains_case_list:
  "maintains I a \<Longrightarrow> (\<And>y ys. maintains I (b y ys)) \<Longrightarrow> maintains I (case x of [] \<Rightarrow> a | y # ys \<Rightarrow> b y ys)"
  by (cases x) auto

lemma maintains_case_sum:
  "(\<And>y. maintains I (a y)) \<Longrightarrow> (\<And>y. maintains I (b y)) \<Longrightarrow> maintains I (case x of Inl y \<Rightarrow> a y | Inr y \<Rightarrow> b y)"
  by (cases x) auto

lemma maintains_case_prod:
  "(\<And>a b. maintains I (f a b)) \<Longrightarrow> maintains I (case x of (a, b) \<Rightarrow> f a b)"
  by (cases x) auto

lemma maintains_if:
  "(c \<Longrightarrow> maintains I a) \<Longrightarrow> (\<not> c \<Longrightarrow> maintains I b) \<Longrightarrow> maintains I (if c then a else b)"
  by simp

lemmas maintains_intros =
  maintains_and_then maintains_return maintains_raise maintains_get maintains_retry
  maintains_case_option maintains_case_list maintains_case_sum maintains_case_prod maintains_if

subsection \<open>What each method maintains\<close>

lemma get_availability_zone_maintains:
  assumes "\<And>self tr d. I (self, tr) \<Longrightarrow> driver self = Some d \<Longrightarrow>
             I (self, tr @ [entry_of self (ExListAvailabilityZones d True)])"
  shows "maintains I (get_availability_zone W)"
  unfolding get_availability_zone_def
  by (rule maintains_self_driver_then | rule maintains_intros maintains_invoke
      | (simp add: assms; fail))+

lemma import_image_volume_maintains:
  assumes "\<And>self tr. I (self, tr) \<Longrightarrow>
             I (self, tr @ [entry_of self (RunSystemCommand
                  (import_cmd (cwd self) img fmt reg bucket zone))])"
  shows "maintains I (import_image_volume W img fmt reg bucket zone)"
  unfolding import_image_volume_def
proof (rule maintainsI)
  fix s
  assume i: "I s"
  obtain self tr where s: "s = (self, tr)" by (cases s)
  show "I (snd (and_then get (\<lambda>self. invoke (ask_output W)
          (RunSystemCommand (import_cmd (cwd self) img fmt reg bucket zone))) s))"
    using i s assms [of self tr] by (simp add: and_then_def get_def invoke_def)
qed

lemma describe_conversion_tasks_maintains:
  assumes "\<And>self tr. I (self, tr) \<Longrightarrow>
             I (self, tr @ [entry_of self (RunSystemCommand (describe_cmd task_id reg))])"
  shows "maintains I (describe_conversion_tasks W fuel task_id reg)"
  unfolding describe_conversion_tasks_def describe_conversion_tasks_attempt_def
  by (intro maintains_intros maintains_invoke) (rule assms)

lemma check_snapshot_exists_maintains:
  assumes call: "\<And>self tr d. I (self, tr) \<Longrightarrow> driver self = Some d \<Longrightarrow>
             I (self, tr @ [entry_of self (ListSnapshots d)])"
    and upd: "\<And>self tr snap. I (self, tr) \<Longrightarrow> I (self\<lparr>snapshot := Some snap\<rparr>, tr)"
  shows "maintains I (check_snapshot_exists W fuel sid)"
  unfolding check_snapshot_exists_def check_snapshot_exists_attempt_def
  by (rule maintains_self_driver_then | rule maintains_intros maintains_invoke maintains_modify
      | (simp add: call upd; fail))+

lemma create_snapshot_maintains:
  assumes vols: "\<And>self tr d. I (self, tr) \<Longrightarrow> driver self = Some d \<Longrightarrow>
             I (self, tr @ [entry_of self (ListVolumes d)])"
    and create: "\<And>self tr d v n. I (self, tr) \<Longrightarrow> driver self = Some d \<Longrightarrow>
             I (self, tr @ [entry_of self (CreateVolumeSnapshot d v n)])"
    and snaps: "\<And>self tr d. I (self, tr) \<Longrightarrow> driver self = Some d \<Longrightarrow>
             I (self, tr @ [entry_of self (ListSnapshots d)])"
    and upd_volume: "\<And>self tr v. I (self, tr) \<Longrightarrow> I (self\<lparr>volume := Some v\<rparr>, tr)"
    and upd_snapshot: "\<And>self tr snap. I (self, tr) \<Longrightarrow> I (self\<lparr>snapshot := Some snap\<rparr>, tr)"
  shows "maintains I (create_snapshot W fuel vid)"
  unfolding create_snapshot_def
  by (rule maintains_self_driver_then | rule maintains_intros maintains_invoke maintains_modify
        check_snapshot_exists_maintains
      | (fastforce intro: vols create snaps upd_volume upd_snapshot))+


lemma not_duplicate_AttributeError:
  "\<not> contains ''InvalidAMIName.Duplicate'' (str_error AttributeError)"
  by code_simp

lemma register_loop_maintains:
  assumes call: "\<And>self tr d r. I (self, tr) \<Longrightarrow> driver self = Some d \<Longrightarrow>
             I (self, tr @ [entry_of self (ExRegisterImage d r)])"
    and upd: "\<And>self tr img. I (self, tr) \<Longrightarrow> I (self\<lparr>image := Some img\<rparr>, tr)"
  shows "maintains I (register_loop W fuel cnt image_name reg_root bdm)"
proof (induction fuel arbitrary: cnt image_name)
  case 0
  show ?case by (rule maintainsI) simp
next
  case (Suc fuel)
  show ?case
  proof (rule maintainsI)
    fix s
    assume i: "I s"
    obtain self tr where s: "s = (self, tr)" by (cases s)
    define name where "name = (if 0 < cnt then re_sub_digit image_name else image_name)"
    show "I (snd (register_loop W (Suc fuel) cnt image_name reg_root bdm s))"
    proof (cases "driver self")
      case None
      then show ?thesis
        using i s not_duplicate_AttributeError
        by (simp add: and_then_def self_driver_def get_def raise_def Let_def)
    next
      case (Some d)
      define r where "r = \<lparr> reg_name = name, reg_description = image_desc self,
                      reg_root_device_name = reg_root, reg_block_device_mapping = bdm,
                      reg_virtualization_type = virt_type self,
                      reg_architecture = image_arch self \<rparr>"
      have i': "I (self, tr @ [entry_of self (ExRegisterImage d r)])"
        using call i s Some by blast
      show ?thesis
      proof (cases "ask_image W (calls tr) (ExRegisterImage d r)")
        case (Inr img)
        then show ?thesis
          using s Some upd [OF i'] 
          by (simp add: and_then_def self_driver_def get_def return_def invoke_def modify_def
                Let_def name_def r_def)
      next
        case (Inl e)
        show ?thesis
        proof (cases "contains ''InvalidAMIName.Duplicate'' (str_error e)")
          case True
          then show ?thesis
            using s Some Inl maintainsD [OF Suc.IH, OF i', of "cnt + 1" name]
            by (simp add: and_then_def self_driver_def get_def return_def invoke_def
                  Let_def name_def r_def)
        next
          case False
          then show ?thesis
            using s Some Inl i'
            by (simp add: and_then_def self_driver_def get_def return_def invoke_def
                  Let_def name_def r_def)
        qed
      qed
    qed
  qed
qed

text \<open>A step that reads the object and acts on it at once, then goes on.\<close>

lemma maintains_get_step:
  assumes g: "\<And>self tr. I (self, tr) \<Longrightarrow> I (snd (g self (self, tr)))"
    and k: "\<And>self x. maintains I (k self x)"
  shows "maintains I (and_then get (\<lambda>self. and_then (g self) (k self)))"
proof (rule maintainsI)
  fix s
  assume i: "I s"
  obtain self tr where s: "s = (self, tr)" by (cases s)
  obtain out s' where gs: "g self (self, tr) = (out, s')" by (cases "g self (self, tr)")
  have s': "I s'" using g [of self tr] i s gs by simp
  show "I (snd (and_then get (\<lambda>self. and_then (g self) (k self)) s))"
  proof (cases out)
    case (Returns x)
    then show ?thesis
      using s gs maintainsD [OF k s', of self x] by (simp add: and_then_def get_def)
  next
    case (Raises e)
    then show ?thesis using s gs s' by (simp add: and_then_def get_def)
  next
    case OutOfFuel
    then show ?thesis using s gs s' by (simp add: and_then_def get_def)
  qed
qed

lemma upload_register_maintains:
  assumes call: "\<And>self tr d r. I (self, tr) \<Longrightarrow> driver self = Some d \<Longrightarrow>
             I (self, tr @ [entry_of self (ExRegisterImage d r)])"
    and upd: "\<And>self tr img. I (self, tr) \<Longrightarrow> I (self\<lparr>image := Some img\<rparr>, tr)"
    and msg: "\<And>self tr dest img. I (self, tr) \<Longrightarrow> destination self = Some dest \<Longrightarrow>
             image self = Some img \<Longrightarrow>
             I (self, tr @ [entry_of self
                  (Message ''image.create'' (raw_url self) dest ''created'' compose_meta
                     [(''id'', image_id img), (''virt_type'', virt_type self),
                      (''vol_type'', vol_type self), (''region'', reg)])])"
  shows "maintains I (upload_register C W fuel compose_meta reg)"
proof -
  have last: "maintains I (and_then get (\<lambda>self.
       case (destination self, image self) of
         (Some dest, Some img) \<Rightarrow>
           invoke (ask_unit W)
             (Message ''image.create'' (raw_url self) dest ''created'' compose_meta
                [(''id'', image_id img), (''virt_type'', virt_type self),
                 (''vol_type'', vol_type self), (''region'', reg)])
       | _ \<Rightarrow> raise AttributeError))"
  proof (rule maintainsI)
    fix s
    assume i: "I s"
    obtain self tr where s: "s = (self, tr)" by (cases s)
    show "I (snd (and_then get (\<lambda>self.
       case (destination self, image self) of
         (Some dest, Some img) \<Rightarrow>
           invoke (ask_unit W)
             (Message ''image.create'' (raw_url self) dest ''created'' compose_meta
                [(''id'', image_id img), (''virt_type'', virt_type self),
                 (''vol_type'', vol_type self), (''region'', reg)])
       | _ \<Rightarrow> raise AttributeError) s))"
      using i s msg [of self tr]
      by (cases "destination self"; cases "image self")
         (simp_all add: and_then_def get_def invoke_def raise_def)
  qed
  show ?thesis
    unfolding upload_register_def register_image_def Let_def
    by (rule last | rule maintains_intros register_loop_maintains
        | (fastforce intro: call upd))+
qed

lemma and_then_get: "and_then get f (self, tr) = f self (self, tr)"
  by (simp add: and_then_def get_def)

lemma maintains_pure: "(P \<Longrightarrow> maintains I m) \<Longrightarrow> maintains (\<lambda>s. I s \<and> P) m"
  unfolding maintains_def by blast

lemma maintains_get_invoke_step:
  assumes g: "\<And>self tr. I (self, tr) \<Longrightarrow> I (snd (g self (self, tr)))"
    and k: "\<And>x. maintains I (k x)"
  shows "maintains I (and_then get (\<lambda>self. and_then (g self) k))"
  by (rule maintains_get_step) (rule g, assumption, rule k)

lemma publish_and_destroy_maintains:
  assumes upd_volume: "\<And>self tr. I (self, tr) \<Longrightarrow> I (self\<lparr>volume := None\<rparr>, tr)"
    and modify_attr: "\<And>self tr d snap attrs. I (self, tr) \<Longrightarrow> driver self = Some d \<Longrightarrow>
          snapshot self = Some snap \<Longrightarrow>
          I (self, tr @ [entry_of self (ExModifySnapshotAttribute d snap attrs)])"
    and destroy: "\<And>self tr d v. I (self, tr) \<Longrightarrow> driver self = Some d \<Longrightarrow>
          volume self = Some v \<Longrightarrow> I (self, tr @ [entry_of self (DestroyVolume d v)])"
  shows "maintains I (publish_and_destroy W reg)"
  apply (rule maintains_self_driver_then)
  apply (rule maintains_get_invoke_step)
  subgoal for d self tr
    using modify_attr [of self tr d]
    by (cases "snapshot self") (auto simp: raise_def invoke_def)
  apply (rule maintains_self_driver_then)
  apply (rule maintains_get_invoke_step)
  subgoal for d x d' self tr
    using destroy [of self tr d']
    by (cases "volume self") (auto simp: raise_def invoke_def)
  apply (rule maintains_and_then)
   apply (rule maintains_modify)
   apply (auto simp: upd_volume) [1]
  apply (rule maintains_return)
  done

lemma upload_snapshot_maintains_split:
  assumes reg: "\<And>self tr. I (self, tr) \<Longrightarrow> region self = reg"
    and upd_destination: "\<And>self tr. I (self, tr) \<Longrightarrow>
          I (self\<lparr>destination := Some (''EC2 ('' @ reg @ '')'')\<rparr>, tr)"
    and started: "\<And>self tr dest. I (self, tr) \<Longrightarrow> destination self = Some dest \<Longrightarrow>
          I (self, tr @ [entry_of self
               (Message ''image.upload'' (raw_url self) dest ''started'' compose_meta [])])"
    and upd_driver: "\<And>self tr. I (self, tr) \<Longrightarrow>
          I (self\<lparr>driver := Some (region_to_driver reg (AWS_ACCESS_ID C) (AWS_SECRET_KEY C))\<rparr>, tr)"
    and zones: "\<And>self tr d. I (self, tr) \<Longrightarrow> driver self = Some d \<Longrightarrow>
          I (self, tr @ [entry_of self (ExListAvailabilityZones d True)])"
    and import: "\<And>self tr img zone. I (self, tr) \<Longrightarrow>
          I (self, tr @ [entry_of self (RunSystemCommand
               (import_cmd (cwd self) img ''raw'' reg (AWS_BUCKET_NAME C @ ''-'' @ reg) zone))])"
    and describe: "\<And>self tr task_id. I (self, tr) \<Longrightarrow>
          I (self, tr @ [entry_of self (RunSystemCommand (describe_cmd task_id reg))])"
    and rest: "\<And>vid. maintains I
          (and_then (create_snapshot W fuel vid) (\<lambda>_. publish_and_destroy W reg))"
  shows "maintains I (upload_snapshot C W fuel compose_meta)"
proof -
  have body: "maintains I
     (and_then (modify (\<lambda>self. self\<lparr>destination := Some (''EC2 ('' @ reg @ '')'')\<rparr>)) (\<lambda>_.
      and_then get (\<lambda>self.
      and_then (case destination self of
                 None \<Rightarrow> raise AttributeError
               | Some dest \<Rightarrow>
                   invoke (ask_unit W)
                     (Message ''image.upload'' (raw_url self) dest ''started'' compose_meta [])) (\<lambda>_.
      and_then (modify (\<lambda>self. self\<lparr>driver :=
                 Some (region_to_driver reg (AWS_ACCESS_ID C) (AWS_SECRET_KEY C))\<rparr>)) (\<lambda>_.
      and_then (get_availability_zone W) (\<lambda>availability_zone.
      and_then get (\<lambda>self.
      and_then (import_image_volume W (file_name self) ''raw'' reg (AWS_BUCKET_NAME C @ ''-'' @ reg)
                 (zone_name availability_zone)) (\<lambda>(out, err).
      and_then (describe_conversion_tasks W fuel (match_regex_pattern ''import-vol-'' 8 out) reg) (\<lambda>vid.
      and_then (create_snapshot W fuel vid) (\<lambda>_. publish_and_destroy W reg))))))))))"
    apply (rule maintains_and_then)
     apply (rule maintains_modify, erule upd_destination)
    apply (rule maintains_get_invoke_step)
    subgoal for x self tr
      using started [of self tr]
      by (cases "destination self") (auto simp: raise_def invoke_def)
    apply (rule maintains_and_then)
     apply (rule maintains_modify, erule upd_driver)
    apply (rule maintains_and_then)
     apply (rule get_availability_zone_maintains, erule zones, assumption)
    apply (rule maintains_and_then)
     apply (rule maintains_get)
    apply (rule maintains_and_then)
     apply (rule import_image_volume_maintains, erule import)
    apply (rule maintains_case_prod)
    apply (rule maintains_and_then)
     apply (rule describe_conversion_tasks_maintains, erule describe)
    apply (rule rest)
    done
  show ?thesis
  proof (rule maintainsI)
    fix s
    assume i: "I s"
    obtain self tr where s: "s = (self, tr)" by (cases s)
    from reg i s have r: "region self = reg" by blast
    from maintainsD [OF body i, unfolded s]
    show "I (snd (upload_snapshot C W fuel compose_meta s))"
      unfolding s upload_snapshot_def Let_def and_then_get r .
  qed
qed

lemma upload_snapshot_maintains:
  assumes reg: "\<And>self tr. I (self, tr) \<Longrightarrow> region self = reg"
    and upd_destination: "\<And>self tr. I (self, tr) \<Longrightarrow>
          I (self\<lparr>destination := Some (''EC2 ('' @ reg @ '')'')\<rparr>, tr)"
    and started: "\<And>self tr dest. I (self, tr) \<Longrightarrow> destination self = Some dest \<Longrightarrow>
          I (self, tr @ [entry_of self
               (Message ''image.upload'' (raw_url self) dest ''started'' compose_meta [])])"
    and upd_driver: "\<And>self tr. I (self, tr) \<Longrightarrow>
          I (self\<lparr>driver := Some (region_to_driver reg (AWS_ACCESS_ID C) (AWS_SECRET_KEY C))\<rparr>, tr)"
    and zones: "\<And>self tr d. I (self, tr) \<Longrightarrow> driver self = Some d \<Longrightarrow>
          I (self, tr @ [entry_of self (ExListAvailabilityZones d True)])"
    and import: "\<And>self tr img zone. I (self, tr) \<Longrightarrow>
          I (self, tr @ [entry_of self (RunSystemCommand
               (import_cmd (cwd self) img ''raw'' reg (AWS_BUCKET_NAME C @ ''-'' @ reg) zone))])"
    and describe: "\<And>self tr task_id. I (self, tr) \<Longrightarrow>
          I (self, tr @ [entry_of self (RunSystemCommand (describe_cmd task_id reg))])"
    and vols: "\<And>self tr d. I (self, tr) \<Longrightarrow> driver self = Some d \<Longrightarrow>
          I (self, tr @ [entry_of self (ListVolumes d)])"
    and create: "\<And>self tr d v n. I (self, tr) \<Longrightarrow> driver self = Some d \<Longrightarrow>
          I (self, tr @ [entry_of self (CreateVolumeSnapshot d v n)])"
    and snaps: "\<And>self tr d. I (self, tr) \<Longrightarrow> driver self = Some d \<Longrightarrow>
          I (self, tr @ [entry_of self (ListSnapshots d)])"
    and upd_volume: "\<And>self tr v. I (self, tr) \<Longrightarrow> I (self\<lparr>volume := v\<rparr>, tr)"
    and upd_snapshot: "\<And>self tr snap. I (self, tr) \<Longrightarrow> I (self\<lparr>snapshot := Some snap\<rparr>, tr)"
    and modify_attr: "\<And>self tr d snap attrs. I (self, tr) \<Longrightarrow> driver self = Some d \<Longrightarrow>
          snapshot self = Some snap \<Longrightarrow>
          I (self, tr @ [entry_of self (ExModifySnapshotAttribute d snap attrs)])"
    and destroy: "\<And>self tr d v. I (self, tr) \<Longrightarrow> driver self = Some d \<Longrightarrow>
          volume self = Some v \<Longrightarrow> I (self, tr @ [entry_of self (DestroyVolume d v)])"
  shows "maintains I (upload_snapshot C W fuel compose_meta)"
  apply (rule upload_snapshot_maintains_split [where reg = reg])
         apply (erule reg)
        apply (erule upd_destination)
       apply (erule started, assumption)
      apply (erule upd_driver)
     apply (erule zones, assumption)
    apply (erule import)
   apply (erule describe)
  apply (rule maintains_and_then)
   apply (rule create_snapshot_maintains)
       apply (erule vols, assumption)
      apply (erule create, assumption)
     apply (erule snaps, assumption)
    apply (erule upd_volume)
   apply (erule upd_snapshot)
  apply (rule publish_and_destroy_maintains)
    apply (erule upd_volume)
   apply (erule modify_attr, assumption, assumption)
  apply (erule destroy, assumption, assumption)
  done

lemma on_returnD: "on_return Q m \<Longrightarrow> fst (m s) = Returns x \<Longrightarrow> Q x (snd (m s))"
  unfolding on_return_def by blast

lemma on_returnI: "(\<And>s x. fst (m s) = Returns x \<Longrightarrow> Q x (snd (m s))) \<Longrightarrow> on_return Q m"
  unfolding on_return_def by blast

lemma on_return_and_then:
  assumes "\<And>x. on_return Q (f x)"
  shows "on_return Q (and_then m f)"
proof (rule on_returnI)
  fix s y
  assume r: "fst (and_then m f s) = Returns y"
  obtain out s' where ms: "m s = (out, s')" by (cases "m s")
  show "Q y (snd (and_then m f s))"
  proof (cases out)
    case (Returns x)
    with ms have e: "and_then m f s = f x s'" by (simp add: and_then_def)
    with r on_returnD [OF assms, of x s' y] show ?thesis by simp
  next
    case (Raises e)
    with ms r show ?thesis by (simp add: and_then_def)
  next
    case OutOfFuel
    with ms r show ?thesis by (simp add: and_then_def)
  qed
qed

lemma on_return_case_prod:
  "(\<And>a b. on_return Q (f a b)) \<Longrightarrow> on_return Q (case x of (a, b) \<Rightarrow> f a b)"
  by (cases x) auto

lemma on_return_modify_return:
  "(\<And>self tr. Q x (g self, tr)) \<Longrightarrow> on_return Q (and_then (modify g) (\<lambda>_. return x))"
  by (rule on_returnI) (auto simp: and_then_def modify_def return_def split_def)

lemma upload_snapshot_returns:
  assumes "fst (upload_snapshot C W fuel compose_meta (self, tr)) = Returns x"
  shows "x = region self
       \<and> volume (fst (snd (upload_snapshot C W fuel compose_meta (self, tr)))) = None"
proof -
  have "on_return (\<lambda>x s. x = region self \<and> volume (fst s) = None)
     (and_then (modify (\<lambda>self'. self'\<lparr>destination := Some (''EC2 ('' @ region self @ '')'')\<rparr>)) (\<lambda>_.
      and_then get (\<lambda>self'.
      and_then (case destination self' of
                 None \<Rightarrow> raise AttributeError
               | Some dest \<Rightarrow>
                   invoke (ask_unit W)
                     (Message ''image.upload'' (raw_url self') dest ''started'' compose_meta [])) (\<lambda>_.
      and_then (modify (\<lambda>self'. self'\<lparr>driver :=
                 Some (region_to_driver (region self) (AWS_ACCESS_ID C) (AWS_SECRET_KEY C))\<rparr>)) (\<lambda>_.
      and_then (get_availability_zone W) (\<lambda>availability_zone.
      and_then get (\<lambda>self'.
      and_then (import_image_volume W (file_name self') ''raw'' (region self)
                 (AWS_BUCKET_NAME C @ ''-'' @ region self)
                 (zone_name availability_zone)) (\<lambda>(out, err).
      and_then (describe_conversion_tasks W fuel (match_regex_pattern ''import-vol-'' 8 out) (region self)) (\<lambda>vid.
      and_then (create_snapshot W fuel vid) (\<lambda>_.
      and_then self_driver (\<lambda>drv.
      and_then get (\<lambda>self'.
      and_then (case snapshot self' of
                 None \<Rightarrow> raise AttributeError
               | Some snap \<Rightarrow>
                   invoke (ask_unit W)
                     (ExModifySnapshotAttribute drv snap
                        [(''CreateVolumePermission.Add.1.Group'', ''all'')])) (\<lambda>_.
      and_then self_driver (\<lambda>drv.
      and_then get (\<lambda>self'.
      and_then (case volume self' of
                 None \<Rightarrow> raise AttributeError
               | Some v \<Rightarrow> invoke (ask_unit W) (DestroyVolume drv v)) (\<lambda>_.
      and_then (modify (\<lambda>self'. self'\<lparr>volume := None\<rparr>)) (\<lambda>_.
        return (region self))))))))))))))))))"
    by (rule on_return_modify_return on_return_and_then on_return_case_prod | simp)+
  from on_returnD [OF this, of "(self, tr)" x] assms
  show ?thesis
    by (simp add: upload_snapshot_def Let_def and_then_get)
qed

lemma upload_maintains:
  assumes first: "maintains I (upload_snapshot C W fuel compose_meta)"
    and second: "\<And>reg. maintains (\<lambda>s. I s \<and> region (fst s) = reg \<and> volume (fst s) = None)
                   (upload_register C W fuel compose_meta reg)"
    and region: "\<And>self tr. I (self, tr) \<Longrightarrow> region self = r"
  shows "maintains I (upload C W fuel compose_meta)"
proof (rule maintainsI)
  fix s
  assume i: "I s"
  obtain self tr where s: "s = (self, tr)" by (cases s)
  obtain out s1 where u: "upload_snapshot C W fuel compose_meta s = (out, s1)"
    by (cases "upload_snapshot C W fuel compose_meta s")
  have i1: "I s1" using maintainsD [OF first i] u by simp
  show "I (snd (upload C W fuel compose_meta s))"
  proof (cases out)
    case (Returns x)
    with u s upload_snapshot_returns [of C W fuel compose_meta self tr x]
    have x: "x = region self" and v: "volume (fst s1) = None" by simp_all
    obtain self1 tr1 where s1: "s1 = (self1, tr1)" by (cases s1)
    have "region self1 = r" "region self = r" using region i1 s1 i s by blast+
    then have "I s1 \<and> region (fst s1) = x \<and> volume (fst s1) = None"
      using i1 v x s1 by simp
    from maintainsD [OF second this] show ?thesis
      using u Returns by (simp add: upload_def and_then_def)
  next
    case (Raises e)
    with u i1 show ?thesis by (simp add: upload_def and_then_def)
  next
    case OutOfFuel
    with u i1 show ?thesis by (simp add: upload_def and_then_def)
  qed
qed


subsection \<open>The region of a run\<close>

lemma targets_import_cmd:
  "targets r (RunSystemCommand (import_cmd location img fmt r (bucket @ ''-'' @ r) zone))"
  unfolding targets.simps by blast

lemma targets_describe_cmd: "targets r (RunSystemCommand (describe_cmd task_id r))"
  unfolding targets.simps by blast

lemma targets_created:
  "targets r (Message topic url (''EC2 ('' @ r @ '')'') status meta
      [(''id'', i), (''virt_type'', vt), (''vol_type'', volt), (''region'', r)])"
  unfolding targets.simps by blast

lemma region_inv_append:
  "region_inv r (self, tr) \<Longrightarrow> targets r c \<Longrightarrow> region_inv r (self, tr @ [entry_of self c])"
  by (simp add: region_inv_def)

lemma region_inv_driver:
  "region_inv r (self, tr) \<Longrightarrow> driver self = Some d \<Longrightarrow> driver_region d = r"
  by (simp add: region_inv_def)

lemma region_inv_upload_snapshot:
  "maintains (region_inv r) (upload_snapshot C W fuel compose_meta)"
proof (rule upload_snapshot_maintains [where reg = r])
  fix self tr
  assume i: "region_inv r (self, tr)"
  show "region self = r" using i by (simp add: region_inv_def)
  show "region_inv r (self\<lparr>destination := Some (''EC2 ('' @ r @ '')'')\<rparr>, tr)"
    using i by (simp add: region_inv_def)
  show "region_inv r
         (self\<lparr>driver := Some (region_to_driver r (AWS_ACCESS_ID C) (AWS_SECRET_KEY C))\<rparr>, tr)"
    using i by (simp add: region_inv_def region_to_driver_def)
  show "\<And>img zone. region_inv r (self, tr @ [entry_of self (RunSystemCommand
           (import_cmd (cwd self) img ''raw'' r (AWS_BUCKET_NAME C @ ''-'' @ r) zone))])"
    using i by (intro region_inv_append targets_import_cmd)
  show "\<And>task_id. region_inv r (self, tr @ [entry_of self (RunSystemCommand (describe_cmd task_id r))])"
    using i by (intro region_inv_append targets_describe_cmd)
  show "\<And>v. region_inv r (self\<lparr>volume := v\<rparr>, tr)"
    using i by (simp add: region_inv_def)
  show "\<And>snap. region_inv r (self\<lparr>snapshot := Some snap\<rparr>, tr)"
    using i by (simp add: region_inv_def)
  show "\<And>dest. destination self = Some dest \<Longrightarrow>
          region_inv r (self, tr @ [entry_of self
               (Message ''image.upload'' (raw_url self) dest ''started'' compose_meta [])])"
    using i by (simp add: region_inv_def)
  show "\<And>d. driver self = Some d \<Longrightarrow>
          region_inv r (self, tr @ [entry_of self (ExListAvailabilityZones d True)])"
    using i by (simp add: region_inv_def)
  show "\<And>d. driver self = Some d \<Longrightarrow> region_inv r (self, tr @ [entry_of self (ListVolumes d)])"
    using i by (simp add: region_inv_def)
  show "\<And>d v n. driver self = Some d \<Longrightarrow>
          region_inv r (self, tr @ [entry_of self (CreateVolumeSnapshot d v n)])"
    using i by (simp add: region_inv_def)
  show "\<And>d. driver self = Some d \<Longrightarrow> region_inv r (self, tr @ [entry_of self (ListSnapshots d)])"
    using i by (simp add: region_inv_def)
  show "\<And>d snap attrs. driver self = Some d \<Longrightarrow> snapshot self = Some snap \<Longrightarrow>
          region_inv r (self, tr @ [entry_of self (ExModifySnapshotAttribute d snap attrs)])"
    using i by (simp add: region_inv_def)
  show "\<And>d v. driver self = Some d \<Longrightarrow> volume self = Some v \<Longrightarrow>
          region_inv r (self, tr @ [entry_of self (DestroyVolume d v)])"
    using i by (simp add: region_inv_def)
qed

lemma region_inv_upload_register:
  "maintains (\<lambda>s. region_inv r s \<and> region (fst s) = reg \<and> volume (fst s) = None)
     (upload_register C W fuel compose_meta reg)"
proof (rule upload_register_maintains)
  fix self tr
  assume i: "region_inv r (self, tr) \<and> region (fst (self, tr)) = reg \<and> volume (fst (self, tr)) = None"
  then have reg: "reg = r" by (auto simp: region_inv_def)
  show "\<And>d x. driver self = Some d \<Longrightarrow>
          region_inv r (self, tr @ [entry_of self (ExRegisterImage d x)])
          \<and> region (fst (self, tr @ [entry_of self (ExRegisterImage d x)])) = reg
          \<and> volume (fst (self, tr @ [entry_of self (ExRegisterImage d x)])) = None"
    using i reg by (auto simp: region_inv_def)
  show "\<And>img. region_inv r (self\<lparr>image := Some img\<rparr>, tr)
          \<and> region (fst (self\<lparr>image := Some img\<rparr>, tr)) = reg
          \<and> volume (fst (self\<lparr>image := Some img\<rparr>, tr)) = None"
    using i reg by (auto simp: region_inv_def)
  show "\<And>dest img. destination self = Some dest \<Longrightarrow> image self = Some img \<Longrightarrow>
          region_inv r (self, tr @ [entry_of self
                  (Message ''image.create'' (raw_url self) dest ''created'' compose_meta
                     [(''id'', image_id img), (''virt_type'', virt_type self),
                      (''vol_type'', vol_type self), (''region'', reg)])])
          \<and> region (fst (self, tr @ [entry_of self
                  (Message ''image.create'' (raw_url self) dest ''created'' compose_meta
                     [(''id'', image_id img), (''virt_type'', virt_type self),
                      (''vol_type'', vol_type self), (''region'', reg)])])) = reg
          \<and> volume (fst (self, tr @ [entry_of self
                  (Message ''image.create'' (raw_url self) dest ''created'' compose_meta
                     [(''id'', image_id img), (''virt_type'', virt_type self),
                      (''vol_type'', vol_type self), (''region'', reg)])])) = None"
    using i reg by (auto simp: region_inv_def)
qed

lemma region_inv_upload: "maintains (region_inv r) (upload C W fuel compose_meta)"
  by (rule upload_maintains [where r = r])
     (rule region_inv_upload_snapshot, rule region_inv_upload_register, simp add: region_inv_def)

lemma split_append:
  "sep \<notin> set first \<Longrightarrow> split sep (first @ sep # rest) = first # split sep rest"
  by (induction first) auto

lemma split_single: "sep \<notin> set first \<Longrightarrow> split sep first = [first]"
  by (induction first) auto

lemma upload_ignores_regions:
  "upload (C\<lparr>AWS_REGIONS := regions\<rparr>) W fuel compose_meta = upload C W fuel compose_meta"
proof -
  have "upload_snapshot (C\<lparr>AWS_REGIONS := regions\<rparr>) W fuel compose_meta
      = upload_snapshot C W fuel compose_meta"
    by (simp add: upload_snapshot_def Let_def)
  moreover have "upload_register (C\<lparr>AWS_REGIONS := regions\<rparr>) W fuel compose_meta
      = upload_register C W fuel compose_meta"
    by (rule ext) (simp add: upload_register_def Let_def cong: option.case_cong)
  ultimately show ?thesis by (simp add: upload_def)
qed

lemma upload_calls_target_region:
  "list_all (\<lambda>e. targets (hd (split (CHR ''|'') (AWS_REGIONS C))) (the_call e))
      (snd (snd (upload C W fuel compose_meta (init C url dir vt volt, []))))"
proof -
  let ?r = "hd (split (CHR ''|'') (AWS_REGIONS C))"
  have "region_inv ?r (init C url dir vt volt, [])"
    by (simp add: region_inv_def init_def Let_def)
  from maintainsD [OF region_inv_upload this]
  show ?thesis by (simp add: region_inv_def)
qed

lemma upload_first_region_only:
  assumes n: "CHR ''|'' \<notin> set first"
  shows "upload (C\<lparr>AWS_REGIONS := first @ ''|'' @ rest\<rparr>) W fuel compose_meta
           (init (C\<lparr>AWS_REGIONS := first @ ''|'' @ rest\<rparr>) url dir vt volt, [])
        = upload (C\<lparr>AWS_REGIONS := first\<rparr>) W fuel compose_meta
           (init (C\<lparr>AWS_REGIONS := first\<rparr>) url dir vt volt, [])"
proof -
  have u: "upload (C\<lparr>AWS_REGIONS := first @ ''|'' @ rest\<rparr>) W fuel compose_meta
      = upload (C\<lparr>AWS_REGIONS := first\<rparr>) W fuel compose_meta"
    by (simp only: upload_ignores_regions)
  have i: "init (C\<lparr>AWS_REGIONS := first @ ''|'' @ rest\<rparr>) url dir vt volt
      = init (C\<lparr>AWS_REGIONS := first\<rparr>) url dir vt volt"
    using split_append [OF n, of rest] split_single [OF n] by (simp add: init_def Let_def)
  show ?thesis by (simp only: u i)
qed

subsection \<open>The registrations of a run\<close>

lemma registrations_append:
  "registrations (cs @ cs') = registrations cs @ registrations cs'"
  by (induction cs rule: registrations.induct) simp_all

lemma map_funpow_upt_Suc:
  "map (\<lambda>i. g ((f ^^ i) x)) [0..<Suc n] = g x # map (\<lambda>i. g ((f ^^ i) (f x))) [0..<n]"
proof -
  have "map (\<lambda>i. g ((f ^^ i) x)) [0..<Suc n]
      = g x # map (\<lambda>i. g ((f ^^ i) x)) (map Suc [0..<n])"
    by (simp only: upt_conv_Cons [of 0 "Suc n"] map_Suc_upt [symmetric]) simp
  also have "map (\<lambda>i. g ((f ^^ i) x)) (map Suc [0..<n]) = map (\<lambda>i. g ((f ^^ i) (f x))) [0..<n]"
    by (simp add: funpow_swap1 comp_def)
  finally show ?thesis .
qed

lemma register_loop_registrations:
  "\<exists>n\<le>fuel.
     registrations (calls (snd (snd (register_loop W fuel cnt image_name reg_root bdm (self, tr)))))
       = registrations (calls tr)
         @ map (\<lambda>i. registration_of self reg_root bdm
                  ((re_sub_digit ^^ i) (if 0 < cnt then re_sub_digit image_name else image_name)))
             [0..<n]
     \<and> (fst (register_loop W fuel cnt image_name reg_root bdm (self, tr)) = Returns () \<longrightarrow> 0 < n)
     \<and> fst (snd (register_loop W fuel cnt image_name reg_root bdm (self, tr)))
         = self\<lparr>image := image (fst (snd (register_loop W fuel cnt image_name reg_root bdm (self, tr))))\<rparr>"
proof (induction fuel arbitrary: cnt image_name tr)
  case 0
  show ?case by simp
next
  case (Suc fuel)
  define name where "name = (if 0 < cnt then re_sub_digit image_name else image_name)"
  show ?case
  proof (cases "driver self")
    case None
    have "register_loop W (Suc fuel) cnt image_name reg_root bdm (self, tr)
        = (Raises AttributeError, (self, tr))"
      using None not_duplicate_AttributeError
      by (simp add: and_then_def self_driver_def get_def raise_def Let_def)
    then show ?thesis by (intro exI [of _ 0]) simp
  next
    case (Some d)
    define r where "r = registration_of self reg_root bdm name"
    define tr' where "tr' = tr @ [entry_of self (ExRegisterImage d r)]"
    have regs: "registrations (calls tr') = registrations (calls tr) @ [r]"
      by (simp add: tr'_def calls_def registrations_append)
    show ?thesis
    proof (cases "ask_image W (calls tr) (ExRegisterImage d r)")
      case (Inr img)
      then have "register_loop W (Suc fuel) cnt image_name reg_root bdm (self, tr)
          = (Returns (), (self\<lparr>image := Some img\<rparr>, tr'))"
        using Some
        by (simp add: and_then_def self_driver_def get_def return_def invoke_def modify_def
              Let_def name_def r_def tr'_def registration_of_def)
      then show ?thesis
        using regs by (intro exI [of _ 1]) (simp add: r_def name_def)
    next
      case (Inl e)
      show ?thesis
      proof (cases "contains ''InvalidAMIName.Duplicate'' (str_error e)")
        case False
        then have "register_loop W (Suc fuel) cnt image_name reg_root bdm (self, tr)
            = (Raises e, (self, tr'))"
          using Some Inl
          by (simp add: and_then_def self_driver_def get_def return_def invoke_def
                Let_def name_def r_def tr'_def registration_of_def)
        then show ?thesis
          using regs by (intro exI [of _ 1]) (simp add: r_def name_def)
      next
        case True
        then have step: "register_loop W (Suc fuel) cnt image_name reg_root bdm (self, tr)
            = register_loop W fuel (cnt + 1) name reg_root bdm (self, tr')"
          using Some Inl
          by (simp add: and_then_def self_driver_def get_def return_def invoke_def
                Let_def name_def r_def tr'_def registration_of_def)
        from Suc.IH [of "cnt + 1" name tr'] obtain n where
          n: "n \<le> fuel" and
          ret: "fst (register_loop W fuel (cnt + 1) name reg_root bdm (self, tr')) = Returns () \<longrightarrow> 0 < n" and
          st: "fst (snd (register_loop W fuel (cnt + 1) name reg_root bdm (self, tr')))
             = self\<lparr>image := image (fst (snd (register_loop W fuel (cnt + 1) name reg_root bdm (self, tr'))))\<rparr>" and
          eq: "registrations (calls (snd (snd (register_loop W fuel (cnt + 1) name reg_root bdm (self, tr')))))
            = registrations (calls tr')
              @ map (\<lambda>i. registration_of self reg_root bdm ((re_sub_digit ^^ i) (re_sub_digit name)))
                  [0..<n]"
          by auto
        have "registrations (calls (snd (snd (register_loop W (Suc fuel) cnt image_name reg_root bdm (self, tr)))))
            = registrations (calls tr)
              @ map (\<lambda>i. registration_of self reg_root bdm ((re_sub_digit ^^ i) name)) [0..<Suc n]"
          unfolding step eq regs
          by (simp only: map_funpow_upt_Suc [of "registration_of self reg_root bdm"] r_def) simp
        then show ?thesis
          using n st unfolding name_def step by (intro exI [of _ "Suc n"]) simp
      qed
    qed
  qed
qed


lemma registrations_snoc:
  "registrations (calls (tr @ [e])) = registrations (calls tr) @ registrations [the_call e]"
  by (simp add: calls_def registrations_append)

lemma upload_snapshot_no_registration:
  "maintains (\<lambda>s. registrations (calls (snd s)) = rs \<and> same_job self (fst s))
     (upload_snapshot C W fuel compose_meta)"
  by (rule upload_snapshot_maintains [where reg = "region self"])
     (auto simp: registrations_snoc same_job_def)

lemma same_job_image_name:
  "same_job self self' \<Longrightarrow> image_name_of self' reg = image_name_of self reg"
  "same_job self self' \<Longrightarrow> reg_root_device_name_of self' = reg_root_device_name_of self"
  by (simp_all add: same_job_def image_name_of_def reg_root_device_name_of_def)

lemma upload_register_registrations:
  "\<exists>n sid.
     registrations (calls (snd (snd (upload_register C W fuel compose_meta reg (self, tr)))))
       = registrations (calls tr)
         @ map (\<lambda>i. registration_of self (reg_root_device_name_of self)
                  [\<lparr> DeviceName = reg_root_device_name_of self, SnapshotId = sid,
                     VolumeSize = AWS_VOL_SIZE C, VolumeType = vol_type self,
                     DeleteOnTermination = ''true'' \<rparr>]
                  ((re_sub_digit ^^ i) (image_name_of self reg)))
             [0..<n]
     \<and> (fst (upload_register C W fuel compose_meta reg (self, tr)) = Returns () \<longrightarrow> 0 < n)"
proof (cases "snapshot self")
  case None
  then have "upload_register C W fuel compose_meta reg (self, tr) = (Raises AttributeError, (self, tr))"
    by (simp add: upload_register_def Let_def and_then_def get_def raise_def)
  then show ?thesis by (intro exI [of _ 0]) simp
next
  case (Some snap)
  define bdm where "bdm = [\<lparr> DeviceName = reg_root_device_name_of self, SnapshotId = snapshot_id snap,
                     VolumeSize = AWS_VOL_SIZE C, VolumeType = vol_type self,
                     DeleteOnTermination = ''true'' \<rparr>]"
  define loop where "loop = register_loop W fuel 0 (image_name_of self reg)
                                (reg_root_device_name_of self) bdm (self, tr)"
  from register_loop_registrations [of fuel W 0 "image_name_of self reg"
      "reg_root_device_name_of self" bdm self tr]
  obtain n where
    regs: "registrations (calls (snd (snd loop)))
       = registrations (calls tr)
         @ map (\<lambda>i. registration_of self (reg_root_device_name_of self) bdm
                  ((re_sub_digit ^^ i) (image_name_of self reg))) [0..<n]" and
    ret: "fst loop = Returns () \<longrightarrow> 0 < n"
    unfolding loop_def by auto
  obtain out self' tr' where l: "loop = (out, (self', tr'))" by (cases loop) auto
  have u: "upload_register C W fuel compose_meta reg (self, tr) =
      (case out of
         Returns x \<Rightarrow>
           (case (destination self', image self') of
              (Some dest, Some img) \<Rightarrow>
                invoke (ask_unit W)
                  (Message ''image.create'' (raw_url self') dest ''created'' compose_meta
                     [(''id'', image_id img), (''virt_type'', virt_type self'),
                      (''vol_type'', vol_type self'), (''region'', reg)]) (self', tr')
            | _ \<Rightarrow> (Raises AttributeError, (self', tr')))
       | Raises e \<Rightarrow> (Raises e, (self', tr'))
       | OutOfFuel \<Rightarrow> (OutOfFuel, (self', tr')))"
    using Some l
    by (cases out; cases "destination self'"; cases "image self'")
       (simp_all add: upload_register_def Let_def and_then_def get_def return_def raise_def
         register_image_def loop_def bdm_def)
  have same: "registrations (calls (snd (snd (upload_register C W fuel compose_meta reg (self, tr)))))
      = registrations (calls tr')"
    unfolding u
    by (cases out; cases "destination self'"; cases "image self'")
       (simp_all add: invoke_def registrations_snoc)
  have "fst (upload_register C W fuel compose_meta reg (self, tr)) = Returns () \<longrightarrow> out = Returns ()"
    unfolding u by (cases out) simp_all
  with ret l have "fst (upload_register C W fuel compose_meta reg (self, tr)) = Returns () \<longrightarrow> 0 < n"
    by simp
  with same regs l show ?thesis
    unfolding bdm_def by (intro exI [of _ n] exI [of _ "snapshot_id snap"]) simp
qed


lemma same_job_registration_of:
  "same_job self self' \<Longrightarrow> registration_of self' = registration_of self"
  by (intro ext) (simp add: same_job_def registration_of_def)

text \<open>
  C8. For every job, the registrations that a run of \<^verbatim>\<open>upload\<close> requests all carry the
  root device name \<open>/dev/sda\<close> when the virtualization type is \<open>paravirtual\<close> and
  \<open>/dev/sda1\<close> for every other one, also as the device of the one block device mapping;
  the first of them carries the image name
  \<open>{build_name}-{region}-{VIRT_TAG}-{vol_type}-0\<close> with the tag \<open>PV\<close> for \<open>paravirtual\<close>
  and \<open>HVM\<close> otherwise (the later ones, after duplicate-name errors, the names that the
  substitution of \<^verbatim>\<open>register_image\<close> derives from it); and a run that returns has
  requested at least one.
\<close>

theorem upload_image_name_and_root_device:
  "\<exists>n sid.
     registrations (calls (snd (snd (upload C W fuel compose_meta (self, [])))))
       = map (\<lambda>i.
            \<lparr> reg_name = (re_sub_digit ^^ i)
                 (build_name self @ ''-'' @ region self @ ''-''
                    @ (if virt_type self = ''paravirtual'' then ''PV'' else ''HVM'')
                    @ ''-'' @ vol_type self @ ''-0''),
              reg_description = image_desc self,
              reg_root_device_name =
                 (if virt_type self = ''paravirtual'' then ''/dev/sda'' else ''/dev/sda1''),
              reg_block_device_mapping =
                 [\<lparr> DeviceName =
                       (if virt_type self = ''paravirtual'' then ''/dev/sda'' else ''/dev/sda1''),
                    SnapshotId = sid, VolumeSize = AWS_VOL_SIZE C, VolumeType = vol_type self,
                    DeleteOnTermination = ''true'' \<rparr>],
              reg_virtualization_type = virt_type self,
              reg_architecture = image_arch self \<rparr>) [0..<n]
     \<and> (fst (upload C W fuel compose_meta (self, [])) = Returns () \<longrightarrow> 0 < n)"
proof -
  obtain out self1 tr1 where u: "upload_snapshot C W fuel compose_meta (self, []) = (out, (self1, tr1))"
    by (cases "upload_snapshot C W fuel compose_meta (self, [])") auto
  have "registrations (calls (snd (self, []))) = [] \<and> same_job self (fst (self, []))"
    by (simp add: calls_def same_job_def)
  from maintainsD [OF upload_snapshot_no_registration this, of C W fuel compose_meta] u
  have none: "registrations (calls tr1) = []" and same: "same_job self self1"
    by simp_all
  show ?thesis
  proof (cases out)
    case (Returns x)
    with u upload_snapshot_returns [of C W fuel compose_meta self "[]" x]
    have x: "x = region self" by simp
    have up: "upload C W fuel compose_meta (self, [])
        = upload_register C W fuel compose_meta (region self) (self1, tr1)"
      using u Returns x by (simp add: upload_def and_then_def)
    from upload_register_registrations [of C W fuel compose_meta "region self" self1 tr1]
    obtain n sid where
      regs: "registrations (calls (snd (snd (upload_register C W fuel compose_meta (region self) (self1, tr1)))))
         = registrations (calls tr1)
           @ map (\<lambda>i. registration_of self1 (reg_root_device_name_of self1)
                  [\<lparr> DeviceName = reg_root_device_name_of self1, SnapshotId = sid,
                     VolumeSize = AWS_VOL_SIZE C, VolumeType = vol_type self1,
                     DeleteOnTermination = ''true'' \<rparr>]
                  ((re_sub_digit ^^ i) (image_name_of self1 (region self)))) [0..<n]" and
      ret: "fst (upload_register C W fuel compose_meta (region self) (self1, tr1)) = Returns () \<longrightarrow> 0 < n"
      by blast
    have vt: "vol_type self1 = vol_type self" using same by (simp add: same_job_def)
    have name: "image_name_of self (region self)
        = build_name self @ ''-'' @ region self @ ''-''
            @ (if virt_type self = ''paravirtual'' then ''PV'' else ''HVM'')
            @ ''-'' @ vol_type self @ ''-0''"
      by (simp add: image_name_of_def)
    show ?thesis
      using regs ret
      unfolding up none same_job_image_name [OF same] same_job_registration_of [OF same] vt name
      by (intro exI [of _ n] exI [of _ sid])
         (simp add: registration_of_def reg_root_device_name_of_def)
  next
    case (Raises e)
    with u none show ?thesis
      by (intro exI [of _ 0]) (simp add: upload_def and_then_def)
  next
    case OutOfFuel
    with u none show ?thesis
      by (intro exI [of _ 0]) (simp add: upload_def and_then_def)
  qed
qed

lemma example_run_returns:
  "fst (upload example_config (example_world '' import-vol-abcd1234'' [example_volume] [])
         3 ''meta'' (example_service, [])) = Returns ()"
  by code_simp

text \<open>The theorem at the example, a run that returns.\<close>

theorem upload_image_name_and_root_device_witness:
  "\<exists>n sid.
     registrations (calls (snd (snd (upload example_config
         (example_world '' import-vol-abcd1234'' [example_volume] []) 3 ''meta''
         (example_service, [])))))
       = map (\<lambda>i.
            \<lparr> reg_name = (re_sub_digit ^^ i)
                 (build_name example_service @ ''-'' @ region example_service @ ''-''
                    @ (if virt_type example_service = ''paravirtual'' then ''PV'' else ''HVM'')
                    @ ''-'' @ vol_type example_service @ ''-0''),
              reg_description = image_desc example_service,
              reg_root_device_name =
                 (if virt_type example_service = ''paravirtual'' then ''/dev/sda'' else ''/dev/sda1''),
              reg_block_device_mapping =
                 [\<lparr> DeviceName =
                       (if virt_type example_service = ''paravirtual'' then ''/dev/sda''
                        else ''/dev/sda1''),
                    SnapshotId = sid, VolumeSize = AWS_VOL_SIZE example_config,
                    VolumeType = vol_type example_service,
                    DeleteOnTermination = ''true'' \<rparr>],
              reg_virtualization_type = virt_type example_service,
              reg_architecture = image_arch example_service \<rparr>) [0..<n]
     \<and> 0 < n"
  using example_run_returns
    upload_image_name_and_root_device [of example_config
      "example_world '' import-vol-abcd1234'' [example_volume] []" 3 "''meta''" example_service]
  by blast

subsection \<open>Looking the volume up\<close>

lemma filter_first:
  assumes "\<exists>u\<in>set xs. P u"
  shows "\<exists>pre v post. xs = pre @ v # post \<and> P v \<and> (\<forall>u\<in>set pre. \<not> P u)
           \<and> filter P xs = v # filter P post"
proof -
  from split_list_first_prop [OF assms] obtain pre v post where
    xs: "xs = pre @ v # post" and v: "P v" and pre: "\<forall>u\<in>set pre. \<not> P u" by blast
  from pre have "filter P pre = []" by (simp add: filter_empty_conv)
  with xs v have "filter P xs = v # filter P post" by simp
  with xs v pre show ?thesis by blast
qed

lemma calls_length: "length (calls tr) = length tr"
  by (simp add: calls_def)

text \<open>
  C6. For every volume id and every list of volumes that the driver returns: when no
  volume of the list has the id, \<^verbatim>\<open>create_snapshot\<close> fails at once with the
  \<^verbatim>\<open>IndexError\<close> of the empty selection (the volume-not-found condition), having made
  no call but the listing, so nothing is tried again and no snapshot is requested; when
  a volume of the list has the id, the first such volume becomes the Volume reference
  and is the one passed to the snapshot creation, the call that follows the listing.
\<close>

theorem create_snapshot_volume_lookup:
  assumes "driver self = Some d"
    and "ask_volumes W (calls tr) (ListVolumes d) = Inr vols"
  shows "((\<forall>u\<in>set vols. volume_id u \<noteq> vid) \<longrightarrow>
            create_snapshot W fuel vid (self, tr)
              = (Raises IndexError, (self, tr @ [entry_of self (ListVolumes d)])))
       \<and> ((\<exists>u\<in>set vols. volume_id u = vid) \<longrightarrow>
            (\<exists>pre v post. vols = pre @ v # post \<and> volume_id v = vid
                \<and> (\<forall>u\<in>set pre. volume_id u \<noteq> vid)
                \<and> volume (fst (snd (create_snapshot W fuel vid (self, tr)))) = Some v
                \<and> take 2 (drop (length tr) (calls (snd (snd (create_snapshot W fuel vid (self, tr))))))
                    = [ListVolumes d,
                       CreateVolumeSnapshot d v (''fedimg-snap-'' @ build_name self)]))"
proof (intro conjI impI)
  assume "\<forall>u\<in>set vols. volume_id u \<noteq> vid"
  then have "filter (\<lambda>v. volume_id v = vid) vols = []"
    by (simp add: filter_empty_conv)
  then show "create_snapshot W fuel vid (self, tr)
              = (Raises IndexError, (self, tr @ [entry_of self (ListVolumes d)]))"
    using assms
    by (simp add: create_snapshot_def and_then_def get_def self_driver_def return_def
          invoke_def raise_def)
next
  assume "\<exists>u\<in>set vols. volume_id u = vid"
  from filter_first [of vols "\<lambda>v. volume_id v = vid", OF this] obtain pre v post where
    vols: "vols = pre @ v # post" and v: "volume_id v = vid" and
    pre: "\<forall>u\<in>set pre. volume_id u \<noteq> vid" and
    f: "filter (\<lambda>v. volume_id v = vid) vols = v # filter (\<lambda>v. volume_id v = vid) post"
    by blast
  define self1 where "self1 = self\<lparr>volume := Some v\<rparr>"
  define c where "c = CreateVolumeSnapshot d v (''fedimg-snap-'' @ build_name self)"
  define tr2 where "tr2 = tr @ [entry_of self (ListVolumes d), entry_of self1 c]"
  let ?K = "\<lambda>s. volume (fst s) = Some v \<and> (\<exists>ext. snd s = tr2 @ ext)"
  have step: "create_snapshot W fuel vid (self, tr) =
      (case ask_snapshot W (calls (tr @ [entry_of self (ListVolumes d)])) c of
         Inl e \<Rightarrow> (Raises e, (self1, tr2))
       | Inr snap \<Rightarrow>
           check_snapshot_exists W fuel (snapshot_id snap) (self1\<lparr>snapshot := Some snap\<rparr>, tr2))"
    using assms f
    by (simp add: create_snapshot_def and_then_def get_def self_driver_def return_def
          invoke_def raise_def modify_def self1_def c_def tr2_def split: sum.splits)
  have keep: "\<And>sid. maintains ?K (check_snapshot_exists W fuel sid)"
    by (rule check_snapshot_exists_maintains) auto
  have K: "?K (snd (create_snapshot W fuel vid (self, tr)))"
  proof (cases "ask_snapshot W (calls (tr @ [entry_of self (ListVolumes d)])) c")
    case (Inl e)
    then show ?thesis unfolding step by (simp add: self1_def)
  next
    case (Inr snap)
    have "?K (self1\<lparr>snapshot := Some snap\<rparr>, tr2)" by (simp add: self1_def)
    from maintainsD [OF keep this] Inr show ?thesis unfolding step by simp
  qed
  then obtain ext where ext: "snd (snd (create_snapshot W fuel vid (self, tr))) = tr2 @ ext"
    by blast
  have "take 2 (drop (length tr) (calls (snd (snd (create_snapshot W fuel vid (self, tr))))))
      = [ListVolumes d, c]"
    unfolding ext by (simp add: tr2_def calls_def)
  with K vols v pre show "\<exists>pre v post. vols = pre @ v # post \<and> volume_id v = vid
                \<and> (\<forall>u\<in>set pre. volume_id u \<noteq> vid)
                \<and> volume (fst (snd (create_snapshot W fuel vid (self, tr)))) = Some v
                \<and> take 2 (drop (length tr) (calls (snd (snd (create_snapshot W fuel vid (self, tr))))))
                    = [ListVolumes d,
                       CreateVolumeSnapshot d v (''fedimg-snap-'' @ build_name self)]"
    unfolding c_def by blast
qed

text \<open>The theorem at an empty volume list and at a list with the volume.\<close>

theorem create_snapshot_volume_lookup_witness:
  "create_snapshot (example_world [] [] []) 3 ''vol-01234567890abcdef''
       (example_service\<lparr>driver := Some (Driver ''us-east-1'' ''id'' ''key'')\<rparr>, [])
     = (Raises IndexError,
        (example_service\<lparr>driver := Some (Driver ''us-east-1'' ''id'' ''key'')\<rparr>,
         [entry_of (example_service\<lparr>driver := Some (Driver ''us-east-1'' ''id'' ''key'')\<rparr>)
            (ListVolumes (Driver ''us-east-1'' ''id'' ''key''))]))
   \<and> (\<exists>pre v post. [example_volume] = pre @ v # post \<and> volume_id v = ''vol-01234567890abcdef''
        \<and> volume (fst (snd (create_snapshot (example_world [] [example_volume] []) 3
              ''vol-01234567890abcdef''
              (example_service\<lparr>driver := Some (Driver ''us-east-1'' ''id'' ''key'')\<rparr>, []))))
            = Some v)"
proof -
  have d: "driver (example_service\<lparr>driver := Some (Driver ''us-east-1'' ''id'' ''key'')\<rparr>)
      = Some (Driver ''us-east-1'' ''id'' ''key'')" by simp
  have a0: "ask_volumes (example_world [] [] []) (calls [])
      (ListVolumes (Driver ''us-east-1'' ''id'' ''key'')) = Inr []"
    by (simp add: example_world_def)
  have a1: "ask_volumes (example_world [] [example_volume] []) (calls [])
      (ListVolumes (Driver ''us-east-1'' ''id'' ''key'')) = Inr [example_volume]"
    by (simp add: example_world_def)
  have none: "\<forall>u\<in>set []. volume_id u \<noteq> ''vol-01234567890abcdef''" by simp
  have some: "\<exists>u\<in>set [example_volume]. volume_id u = ''vol-01234567890abcdef''"
    by (simp add: example_volume_def)
  from create_snapshot_volume_lookup [OF d a0, of "''vol-01234567890abcdef''" 3] none
  have first: "create_snapshot (example_world [] [] []) 3 ''vol-01234567890abcdef''
       (example_service\<lparr>driver := Some (Driver ''us-east-1'' ''id'' ''key'')\<rparr>, [])
     = (Raises IndexError,
        (example_service\<lparr>driver := Some (Driver ''us-east-1'' ''id'' ''key'')\<rparr>,
         [entry_of (example_service\<lparr>driver := Some (Driver ''us-east-1'' ''id'' ''key'')\<rparr>)
            (ListVolumes (Driver ''us-east-1'' ''id'' ''key''))]))"
    by simp
  from create_snapshot_volume_lookup [OF d a1, of "''vol-01234567890abcdef''" 3] some
  have "\<exists>pre v post. [example_volume] = pre @ v # post \<and> volume_id v = ''vol-01234567890abcdef''
        \<and> volume (fst (snd (create_snapshot (example_world [] [example_volume] []) 3
              ''vol-01234567890abcdef''
              (example_service\<lparr>driver := Some (Driver ''us-east-1'' ''id'' ''key'')\<rparr>, []))))
            = Some v"
    by blast
  with first show ?thesis by blast
qed

subsection \<open>An import without a task identifier\<close>

text \<open>Once a step has established a predicate that the rest maintains.\<close>

lemma and_then_reaches:
  assumes "I (snd (m s))" and "\<And>x. maintains I (f x)"
  shows "I (snd (and_then m f s))"
proof -
  obtain out s' where ms: "m s = (out, s')" by (cases "m s")
  with assms(1) have s': "I s'" by simp
  show ?thesis
  proof (cases out)
    case (Returns x)
    then show ?thesis using ms maintainsD [OF assms(2) s', of x] by (simp add: and_then_def)
  next
    case (Raises e)
    then show ?thesis using ms s' by (simp add: and_then_def)
  next
    case OutOfFuel
    then show ?thesis using ms s' by (simp add: and_then_def)
  qed
qed

lemma ws_occurrence_token_occurs:
  assumes "ws_occurrence lit k s pre tok"
  shows "token_occurs lit k s"
proof -
  from assms obtain c post where s: "s = pre @ c # tok @ post" and t: "is_token lit k tok"
    unfolding ws_occurrence_def by blast
  have here: "token_occurs lit k (tok @ post)"
  proof (cases "tok @ post")
    case Nil
    with t show ?thesis by simp
  next
    case (Cons a as)
    from t have "length tok = length lit + k" by (simp add: is_token_def)
    then have "take (length lit + k) (tok @ post) = tok" by simp
    with t Cons show ?thesis by (metis token_occurs.simps(2))
  qed
  have later: "\<And>x xs. token_occurs lit k xs \<Longrightarrow> token_occurs lit k (x # xs)" by simp
  have "token_occurs lit k (ys @ c # tok @ post)" for ys
    by (induction ys) (use here later in \<open>simp_all del: token_occurs.simps\<close>)
  with s show ?thesis by simp
qed

lemma take_calls_append:
  "take n (calls tr) = cs \<Longrightarrow> length cs = n \<Longrightarrow> take n (calls (tr @ tr')) = cs"
  by (auto simp: calls_def)

lemma and_then_modify: "and_then (modify g) f (self, tr) = f () (g self, tr)"
  by (simp add: and_then_def modify_def)

lemma and_then_return: "and_then (return x) f s = f x s"
  by (simp add: and_then_def return_def)

lemma and_then_assoc: "and_then (and_then m f) g s = and_then m (\<lambda>x. and_then (f x) g) s"
  by (simp add: and_then_def split: prod.splits outcome.splits)

lemma and_then_invoke_ok:
  "ask (calls tr) c = Inr x \<Longrightarrow>
     and_then (invoke ask c) f (self, tr) = f x (self, tr @ [entry_of self c])"
  by (simp add: and_then_def invoke_def)

lemma and_then_self_driver:
  "driver self = Some d \<Longrightarrow> and_then self_driver f (self, tr) = f d (self, tr)"
  by (simp add: and_then_def self_driver_def get_def return_def)

text \<open>
  C5. For every output of the import command in which no token of the task-identifier
  pattern (\<^verbatim>\<open>import-vol-\<close> followed by 8 identifier characters) occurs right after a
  whitespace character, so in particular when no such token occurs at all: the search
  yields the empty string, no error is raised, and the run proceeds with the empty task
  id; its next call is the status query for the empty id.
\<close>

theorem upload_proceeds_without_task_id:
  assumes started: "ask_unit W []
        (Message ''image.upload'' (raw_url self) (''EC2 ('' @ region self @ '')'') ''started''
           compose_meta []) = Inr ()"
    and zones: "ask_zones W
        [Message ''image.upload'' (raw_url self) (''EC2 ('' @ region self @ '')'') ''started''
           compose_meta []]
        (ExListAvailabilityZones
           (region_to_driver (region self) (AWS_ACCESS_ID C) (AWS_SECRET_KEY C)) True)
         = Inr (z # zs)"
    and import: "ask_output W
        [Message ''image.upload'' (raw_url self) (''EC2 ('' @ region self @ '')'') ''started''
           compose_meta [],
         ExListAvailabilityZones
           (region_to_driver (region self) (AWS_ACCESS_ID C) (AWS_SECRET_KEY C)) True]
        (RunSystemCommand
           (import_cmd (cwd self) (file_name self) ''raw'' (region self)
              (AWS_BUCKET_NAME C @ ''-'' @ region self) (zone_name z)))
         = Inr (out, err)"
    and absent: "\<forall>pre tok. \<not> ws_occurrence ''import-vol-'' 8 out pre tok"
    and fuel: "0 < fuel"
  shows "match_regex_pattern ''import-vol-'' 8 out = []
       \<and> take 4 (calls (snd (snd (upload C W fuel compose_meta (self, [])))))
           = [Message ''image.upload'' (raw_url self) (''EC2 ('' @ region self @ '')'') ''started''
                compose_meta [],
              ExListAvailabilityZones
                (region_to_driver (region self) (AWS_ACCESS_ID C) (AWS_SECRET_KEY C)) True,
              RunSystemCommand
                (import_cmd (cwd self) (file_name self) ''raw'' (region self)
                   (AWS_BUCKET_NAME C @ ''-'' @ region self) (zone_name z)),
              RunSystemCommand (describe_cmd [] (region self))]"
proof -
  define c1 where "c1 = Message ''image.upload'' (raw_url self) (''EC2 ('' @ region self @ '')'')
      ''started'' compose_meta []"
  define c2 where "c2 = ExListAvailabilityZones
      (region_to_driver (region self) (AWS_ACCESS_ID C) (AWS_SECRET_KEY C)) True"
  define c3 where "c3 = RunSystemCommand
      (import_cmd (cwd self) (file_name self) ''raw'' (region self)
         (AWS_BUCKET_NAME C @ ''-'' @ region self) (zone_name z))"
  define c4 where "c4 = RunSystemCommand (describe_cmd [] (region self))"
  define self1 where "self1 = self\<lparr>destination := Some (''EC2 ('' @ region self @ '')''),
      driver := Some (region_to_driver (region self) (AWS_ACCESS_ID C) (AWS_SECRET_KEY C))\<rparr>"
  define self0 where "self0 = self\<lparr>destination := Some (''EC2 ('' @ region self @ '')'')\<rparr>"
  define tr3 where "tr3 = [entry_of self0 c1, entry_of self1 c2, entry_of self1 c3]"
  define I where "I = (\<lambda>s :: state. take 4 (calls (snd s)) = [c1, c2, c3, c4])"
  from absent have none: "re_search ''import-vol-'' 8 out = None"
    by (simp add: re_search_None_iff)
  then have id: "match_regex_pattern ''import-vol-'' 8 out = []"
    by (simp add: match_regex_pattern_def)
  have first: "upload_snapshot C W fuel compose_meta (self, []) =
      and_then (describe_conversion_tasks W fuel [] (region self)) (\<lambda>vid.
      and_then (create_snapshot W fuel vid) (\<lambda>_. publish_and_destroy W (region self)))
        (self1, tr3)"
    using started zones import id
    by (simp add: upload_snapshot_def Let_def and_then_get and_then_modify and_then_invoke_ok
          and_then_self_driver and_then_assoc and_then_return get_availability_zone_def
          import_image_volume_def calls_def
          self1_def self0_def tr3_def c1_def c2_def c3_def)
  have app: "\<And>self' tr e. I (self', tr) \<Longrightarrow> I (self', tr @ [e])"
    by (simp add: I_def take_calls_append)
  obtain n where n: "fuel = Suc n" using fuel by (cases fuel) auto
  have attempt: "I (snd (describe_conversion_tasks_attempt W [] (region self) (self1, tr3)))"
    by (cases "ask_output W (calls tr3) c4")
       (auto simp: I_def describe_conversion_tasks_attempt_def and_then_def invoke_def raise_def
          return_def calls_def tr3_def c4_def split: prod.splits sum.splits)
  have "maintains I (describe_conversion_tasks W n [] (region self))"
    by (rule describe_conversion_tasks_maintains) (rule app)
  then have again: "maintains I
      (retry n retry_if_result_false_str (describe_conversion_tasks_attempt W [] (region self)))"
    by (simp add: describe_conversion_tasks_def)
  have described: "I (snd (describe_conversion_tasks W fuel [] (region self) (self1, tr3)))"
    unfolding describe_conversion_tasks_def n retry.simps
    by (rule and_then_reaches [of I]) (rule attempt, simp add: again maintains_return)
  have rest: "\<And>vid. maintains I
      (and_then (create_snapshot W fuel vid) (\<lambda>_. publish_and_destroy W (region self)))"
    by (rule maintains_and_then create_snapshot_maintains publish_and_destroy_maintains
        | (erule app) | (simp add: I_def; fail))+
  have snapshot: "I (snd (upload_snapshot C W fuel compose_meta (self, [])))"
    unfolding first by (rule and_then_reaches [of I]) (rule described, rule rest)
  have register: "maintains I (upload_register C W fuel compose_meta reg)" for reg
    by (rule upload_register_maintains) (erule app | (simp add: I_def; fail))+
  have "I (snd (upload C W fuel compose_meta (self, [])))"
    unfolding upload_def by (rule and_then_reaches [of I]) (rule snapshot, rule register)
  with id show ?thesis
    by (simp add: I_def c1_def c2_def c3_def c4_def)
qed

text \<open>The theorem at the example, the import command answering without a task id.\<close>

theorem upload_proceeds_without_task_id_witness:
  "match_regex_pattern ''import-vol-'' 8 ''Requested conversion'' = []
   \<and> take 4 (calls (snd (snd (upload example_config
         (example_world ''Requested conversion'' [example_volume] []) 3 ''meta''
         (example_service, [])))))
       = [Message ''image.upload'' (raw_url example_service)
            (''EC2 ('' @ region example_service @ '')'') ''started'' ''meta'' [],
          ExListAvailabilityZones
            (region_to_driver (region example_service) (AWS_ACCESS_ID example_config)
               (AWS_SECRET_KEY example_config)) True,
          RunSystemCommand
            (import_cmd (cwd example_service) (file_name example_service) ''raw''
               (region example_service)
               (AWS_BUCKET_NAME example_config @ ''-'' @ region example_service)
               (zone_name \<lparr> zone_name = ''us-east-1a'' \<rparr>)),
          RunSystemCommand (describe_cmd [] (region example_service))]"
proof -
  have "re_search ''import-vol-'' 8 ''Requested conversion'' = None" by code_simp
  then have absent: "\<forall>pre tok. \<not> ws_occurrence ''import-vol-'' 8 ''Requested conversion'' pre tok"
    by (rule iffD1 [OF re_search_None_iff])
  have cmd: "take 18 (import_cmd l i f r b z) = ''euca-import-volume''" for l i f r b z
    by (simp add: import_cmd_def)
  show ?thesis
    by (rule upload_proceeds_without_task_id
          [where W = "example_world ''Requested conversion'' [example_volume] []"
             and zs = "[]" and err = "[]"])
       (simp_all add: example_world_def cmd absent del: ws_occurrence_Cons_iff)
qed

text \<open>The same run goes on to the end: the job returns, its image registered, although
  the output of the import command holds no task identifier at all.\<close>

theorem upload_returns_without_task_id_counterexample:
  "\<not> token_occurs ''import-vol-'' 8 ''Requested conversion''
   \<and> fst (upload example_config
         (example_world ''Requested conversion'' [example_volume] []) 3 ''meta''
         (example_service, [])) = Returns ()"
  by code_simp

subsection \<open>Predicates established in two phases\<close>



lemma ensures_maintains: "maintains I m \<Longrightarrow> ensures I m I"
  unfolding ensures_def maintains_def by blast






subsection \<open>The Volume and the Snapshot reference\<close>

lemma on_return_conj:
  "on_return Q m \<Longrightarrow> on_return R m \<Longrightarrow> on_return (\<lambda>x s. Q x s \<and> R x s) m"
  unfolding on_return_def by blast

lemma on_return_raise: "on_return Q (raise e)"
  by (rule on_returnI) (simp add: raise_def)

lemma on_return_case_list:
  "on_return Q a \<Longrightarrow> (\<And>y ys. on_return Q (b y ys)) \<Longrightarrow>
     on_return Q (case x of [] \<Rightarrow> a | y # ys \<Rightarrow> b y ys)"
  by (cases x) auto

text \<open>What an update establishes and the rest maintains holds when the whole returns.\<close>

lemma on_return_modify_then:
  assumes g: "\<And>self tr. V (g self, tr)" and f: "\<And>x. maintains V (f x)"
  shows "on_return (\<lambda>_. V) (and_then (modify g) f)"
proof (rule on_returnI)
  fix s :: state and x
  obtain self tr where s: "s = (self, tr)" by (cases s)
  from maintainsD [OF f, of "(g self, tr)" "()"] g
  show "V (snd (and_then (modify g) f s))"
    by (simp add: s and_then_modify)
qed

lemma on_return_established:
  assumes m: "on_return (\<lambda>_. B) m" and f: "\<And>x. maintains B (f x)"
  shows "on_return (\<lambda>_. B) (and_then m f)"
proof (rule on_returnI)
  fix s y
  assume r: "fst (and_then m f s) = Returns y"
  obtain out s' where ms: "m s = (out, s')" by (cases "m s")
  show "B (snd (and_then m f s))"
  proof (cases out)
    case (Returns x)
    with ms on_returnD [OF m, of s x] have "B s'" by simp
    from maintainsD [OF f this, of x] show ?thesis
      using ms Returns by (simp add: and_then_def)
  next
    case (Raises e)
    with ms r show ?thesis by (simp add: and_then_def)
  next
    case OutOfFuel
    with ms r show ?thesis by (simp add: and_then_def)
  qed
qed

lemma on_return_retry:
  assumes "on_return (\<lambda>x s. \<not> not_yet x \<longrightarrow> Q x s) m"
  shows "on_return Q (retry n not_yet m)"
proof (induction n)
  case 0
  show ?case by (rule on_returnI) simp
next
  case (Suc n)
  show ?case
  proof (rule on_returnI)
    fix s y
    assume r: "fst (retry (Suc n) not_yet m s) = Returns y"
    obtain out s' where ms: "m s = (out, s')" by (cases "m s")
    show "Q y (snd (retry (Suc n) not_yet m s))"
    proof (cases out)
      case (Returns x)
      show ?thesis
      proof (cases "not_yet x")
        case True
        with ms Returns have e: "retry (Suc n) not_yet m s = retry n not_yet m s'"
          by (simp add: and_then_def)
        with r on_returnD [OF Suc.IH, of s' y] show ?thesis by simp
      next
        case False
        with ms Returns have e: "retry (Suc n) not_yet m s = (Returns x, s')"
          by (simp add: and_then_def return_def)
        with r have "y = x" by simp
        with on_returnD [OF assms, of s x] ms Returns False e show ?thesis by simp
      qed
    next
      case (Raises e)
      with ms r show ?thesis by (simp add: and_then_def)
    next
      case OutOfFuel
      with ms r show ?thesis by (simp add: and_then_def)
    qed
  qed
qed

lemma check_snapshot_exists_returns:
  "on_return (\<lambda>_ s. held_complete (snapshot (fst s))) (check_snapshot_exists W fuel sid)"
  unfolding check_snapshot_exists_def
proof (rule on_return_retry, rule on_returnI)
  fix s x
  assume r: "fst (check_snapshot_exists_attempt W sid s) = Returns x"
  obtain self tr where s: "s = (self, tr)" by (cases s)
  show "\<not> retry_if_result_false x \<longrightarrow>
          held_complete (snapshot (fst (snd (check_snapshot_exists_attempt W sid s))))"
  proof (cases "snapshot self")
    case None
    with r s show ?thesis
      by (simp add: check_snapshot_exists_attempt_def and_then_get raise_def)
  next
    case (Some snap)
    show ?thesis
    proof (cases "snapshot_state snap = ''completed''")
      case True
      with Some s show ?thesis
        by (simp add: check_snapshot_exists_attempt_def and_then_get return_def
              held_complete_def)
    next
      case False
      have "x = False"
        using r s Some False
        by (auto simp: check_snapshot_exists_attempt_def and_then_get and_then_def
              self_driver_def get_def raise_def return_def invoke_def modify_def
              split: option.splits sum.splits list.splits)
      then show ?thesis by (simp add: retry_if_result_false_def)
    qed
  qed
qed

lemma create_snapshot_returns:
  "on_return (\<lambda>_ s. volume (fst s) \<noteq> None \<and> held_complete (snapshot (fst s)))
     (create_snapshot W fuel vid)"
proof (rule on_return_conj)
  show "on_return (\<lambda>_ s. volume (fst s) \<noteq> None) (create_snapshot W fuel vid)"
    unfolding create_snapshot_def
    apply (rule on_return_modify_then
        | rule on_return_and_then on_return_case_list on_return_raise)+
     apply simp
    apply (rule maintains_self_driver_then
        | rule maintains_intros maintains_invoke maintains_modify check_snapshot_exists_maintains
        | (simp; fail))+
    done
  show "on_return (\<lambda>_ s. held_complete (snapshot (fst s))) (create_snapshot W fuel vid)"
    unfolding create_snapshot_def
    by (rule check_snapshot_exists_returns
        | rule on_return_and_then on_return_case_list on_return_raise)+
qed







lemma create_then_publish_returns:
  "on_return (\<lambda>_ s. held_complete (snapshot (fst s)))
     (and_then (create_snapshot W fuel vid) (\<lambda>_. publish_and_destroy W reg))"
proof (rule on_return_established)
  show "on_return (\<lambda>_ s. held_complete (snapshot (fst s))) (create_snapshot W fuel vid)"
    using create_snapshot_returns [of W fuel vid] unfolding on_return_def by blast
  show "maintains (\<lambda>s. held_complete (snapshot (fst s))) (publish_and_destroy W reg)" for x :: bool
    by (rule publish_and_destroy_maintains) simp_all
qed

lemma upload_snapshot_returns_snapshot:
  "on_return (\<lambda>_ s. held_complete (snapshot (fst s))) (upload_snapshot C W fuel compose_meta)"
  unfolding upload_snapshot_def Let_def
  by (rule create_then_publish_returns | rule on_return_and_then on_return_case_prod)+




subsection \<open>The number of registrations of a run\<close>

lemma duplicate_errors_append:
  "duplicate_errors W hist (cs @ cs')
     = duplicate_errors W hist cs + duplicate_errors W (hist @ cs) cs'"
  by (induction W hist cs rule: duplicate_errors.induct) simp_all

lemma no_registration_no_duplicate:
  "registrations cs = [] \<Longrightarrow> duplicate_errors W hist cs = 0"
  by (induction W hist cs rule: duplicate_errors.induct) simp_all

lemma register_loop_count:
  assumes d: "driver self = Some d"
  shows "\<exists>new.
     snd (snd (register_loop W fuel cnt image_name reg_root bdm (self, tr))) = tr @ new
     \<and> length (registrations (calls new))
         = duplicate_errors W (calls tr) (calls new)
           + (if fst (register_loop W fuel cnt image_name reg_root bdm (self, tr)) = OutOfFuel
              then 0 else 1)
     \<and> length (registrations (calls new)) = length new"
proof (induction fuel arbitrary: cnt image_name tr)
  case 0
  show ?case by (intro exI [of _ "[]"]) (simp add: calls_def)
next
  case (Suc fuel)
  define name where "name = (if 0 < cnt then re_sub_digit image_name else image_name)"
  define r where "r = registration_of self reg_root bdm name"
  define e where "e = entry_of self (ExRegisterImage d r)"
  define tr' where "tr' = tr @ [e]"
  have c: "calls tr' = calls tr @ [ExRegisterImage d r]"
    by (simp add: tr'_def e_def calls_def)
  show ?case
  proof (cases "ask_image W (calls tr) (ExRegisterImage d r)")
    case (Inr img)
    then have "register_loop W (Suc fuel) cnt image_name reg_root bdm (self, tr)
        = (Returns (), (self\<lparr>image := Some img\<rparr>, tr'))"
      using d
      by (simp add: and_then_def self_driver_def get_def return_def invoke_def modify_def
            Let_def name_def r_def e_def tr'_def registration_of_def)
    then show ?thesis
      using Inr d
      by (intro exI [of _ "[e]"]) (simp add: tr'_def e_def calls_def)
  next
    case (Inl err)
    show ?thesis
    proof (cases "contains ''InvalidAMIName.Duplicate'' (str_error err)")
      case False
      then have "register_loop W (Suc fuel) cnt image_name reg_root bdm (self, tr)
          = (Raises err, (self, tr'))"
        using d Inl
        by (simp add: and_then_def self_driver_def get_def return_def invoke_def
              Let_def name_def r_def e_def tr'_def registration_of_def)
      then show ?thesis
        using Inl False d
        by (intro exI [of _ "[e]"]) (simp add: tr'_def e_def calls_def)
    next
      case True
      then have step: "register_loop W (Suc fuel) cnt image_name reg_root bdm (self, tr)
          = register_loop W fuel (cnt + 1) name reg_root bdm (self, tr')"
        using d Inl
        by (simp add: and_then_def self_driver_def get_def return_def invoke_def
              Let_def name_def r_def e_def tr'_def registration_of_def)
      from Suc.IH [of "cnt + 1" name tr'] obtain new where
        t: "snd (snd (register_loop W fuel (cnt + 1) name reg_root bdm (self, tr'))) = tr' @ new"
        and n: "length (registrations (calls new))
           = duplicate_errors W (calls tr') (calls new)
             + (if fst (register_loop W fuel (cnt + 1) name reg_root bdm (self, tr')) = OutOfFuel
                then 0 else 1)"
        and a: "length (registrations (calls new)) = length new"
        by blast
      have "calls (e # new) = ExRegisterImage d r # calls new"
        by (simp add: e_def calls_def)
      then show ?thesis
        unfolding step
        using t n a Inl True c
        by (intro exI [of _ "e # new"])
           (simp add: tr'_def duplicate_errors_append calls_append)
    qed
  qed
qed

lemma upload_register_count:
  assumes d: "driver self = Some d" and snap: "snapshot self \<noteq> None"
  shows "\<exists>new.
     snd (snd (upload_register C W fuel compose_meta reg (self, tr))) = tr @ new
     \<and> length (registrations (calls new))
         = duplicate_errors W (calls tr) (calls new)
           + (if fst (upload_register C W fuel compose_meta reg (self, tr)) = OutOfFuel
              then 0 else 1)"
proof -
  from snap obtain sn where sn: "snapshot self = Some sn" by blast
  define bdm where "bdm = [\<lparr> DeviceName = reg_root_device_name_of self, SnapshotId = snapshot_id sn,
                     VolumeSize = AWS_VOL_SIZE C, VolumeType = vol_type self,
                     DeleteOnTermination = ''true'' \<rparr>]"
  define loop where "loop = register_loop W fuel 0 (image_name_of self reg)
                                (reg_root_device_name_of self) bdm (self, tr)"
  from register_loop_count [OF d, of W fuel 0 "image_name_of self reg"
      "reg_root_device_name_of self" bdm tr]
  obtain new where
    t: "snd (snd loop) = tr @ new" and
    n: "length (registrations (calls new))
         = duplicate_errors W (calls tr) (calls new) + (if fst loop = OutOfFuel then 0 else 1)"
    unfolding loop_def by blast
  obtain out self' tr' where l: "loop = (out, (self', tr'))" by (cases loop) auto
  with t have tr': "tr' = tr @ new" by simp
  have u: "upload_register C W fuel compose_meta reg (self, tr) =
      (case out of
         Returns x \<Rightarrow>
           (case (destination self', image self') of
              (Some dest, Some img) \<Rightarrow>
                invoke (ask_unit W)
                  (Message ''image.create'' (raw_url self') dest ''created'' compose_meta
                     [(''id'', image_id img), (''virt_type'', virt_type self'),
                      (''vol_type'', vol_type self'), (''region'', reg)]) (self', tr')
            | _ \<Rightarrow> (Raises AttributeError, (self', tr')))
       | Raises e \<Rightarrow> (Raises e, (self', tr'))
       | OutOfFuel \<Rightarrow> (OutOfFuel, (self', tr')))"
    using sn l
    by (cases out; cases "destination self'"; cases "image self'")
       (simp_all add: upload_register_def Let_def and_then_def get_def return_def raise_def
         register_image_def loop_def bdm_def)
  show ?thesis
  proof (cases out)
    case (Returns x)
    show ?thesis
    proof (cases "destination self'")
      case None
      with u Returns n l tr' show ?thesis
        by (intro exI [of _ new]) simp
    next
      case (Some dest)
      show ?thesis
      proof (cases "image self'")
        case None
        with u Returns Some n l tr' show ?thesis
          by (intro exI [of _ new]) simp
      next
        case (Some img)
        define m where "m = entry_of self'
                  (Message ''image.create'' (raw_url self') dest ''created'' compose_meta
                     [(''id'', image_id img), (''virt_type'', virt_type self'),
                      (''vol_type'', vol_type self'), (''region'', reg)])"
        have f: "snd (snd (upload_register C W fuel compose_meta reg (self, tr))) = tr @ new @ [m]"
          and o: "fst (upload_register C W fuel compose_meta reg (self, tr)) \<noteq> OutOfFuel"
          using u Returns \<open>destination self' = Some dest\<close> Some tr'
          by (simp_all add: invoke_def m_def split: sum.splits)
        have "calls (new @ [m]) = calls new @ [the_call m]" by (simp add: calls_def)
        then have "length (registrations (calls (new @ [m])))
            = duplicate_errors W (calls tr) (calls (new @ [m])) + 1"
          using n l Returns
          by (simp add: registrations_append duplicate_errors_append m_def)
        with f o show ?thesis
          by (intro exI [of _ "new @ [m]"]) simp
      qed
    qed
  next
    case (Raises e)
    with u n l tr' show ?thesis by (intro exI [of _ new]) simp
  next
    case OutOfFuel
    with u n l tr' show ?thesis by (intro exI [of _ new]) simp
  qed
qed

lemma upload_snapshot_returns_driver:
  "on_return (\<lambda>_ s. driver (fst s) \<noteq> None) (upload_snapshot C W fuel compose_meta)"
  unfolding upload_snapshot_def Let_def
  apply (rule on_return_and_then)
  apply (rule on_return_and_then)
  apply (rule on_return_and_then)
  apply (rule on_return_and_then)
  apply (rule on_return_modify_then)
   apply simp
  apply (rule publish_and_destroy_maintains
        | rule maintains_intros get_availability_zone_maintains import_image_volume_maintains
            describe_conversion_tasks_maintains create_snapshot_maintains
        | (simp; fail))+
  done

lemma registrations_of_upload_counted:
  "((\<forall>r. fst (upload_snapshot C W fuel compose_meta (self, [])) \<noteq> Returns r) \<longrightarrow>
       registrations (calls (snd (snd (upload C W fuel compose_meta (self, []))))) = [])
   \<and> ((\<exists>r. fst (upload_snapshot C W fuel compose_meta (self, [])) = Returns r) \<longrightarrow>
       length (registrations (calls (snd (snd (upload C W fuel compose_meta (self, []))))))
         = duplicate_errors W [] (calls (snd (snd (upload C W fuel compose_meta (self, [])))))
           + (if fst (upload C W fuel compose_meta (self, [])) = OutOfFuel then 0 else 1))"
proof -
  obtain out self1 tr1 where u: "upload_snapshot C W fuel compose_meta (self, []) = (out, (self1, tr1))"
    by (cases "upload_snapshot C W fuel compose_meta (self, [])") auto
  have "registrations (calls (snd (self, []))) = [] \<and> same_job self (fst (self, []))"
    by (simp add: calls_def same_job_def)
  from maintainsD [OF upload_snapshot_no_registration
      [where rs = "[]" and self = self and C = C and W = W and fuel = fuel
         and compose_meta = compose_meta], OF this] u
  have none: "registrations (calls tr1) = []" by simp
  show ?thesis
  proof (cases out)
    case (Returns x)
    from on_returnD [OF upload_snapshot_returns_driver, of C W fuel compose_meta "(self, [])" x]
      u Returns
    obtain d where d: "driver self1 = Some d" by auto
    from on_returnD [OF upload_snapshot_returns_snapshot, of C W fuel compose_meta "(self, [])" x]
      u Returns
    have sn: "snapshot self1 \<noteq> None" by (auto simp: held_complete_def split: option.splits)
    have up: "upload C W fuel compose_meta (self, [])
        = upload_register C W fuel compose_meta x (self1, tr1)"
      using u Returns by (simp add: upload_def and_then_def)
    from upload_register_count [OF d sn, of C W fuel compose_meta x tr1] obtain new where
      t: "snd (snd (upload_register C W fuel compose_meta x (self1, tr1))) = tr1 @ new" and
      n: "length (registrations (calls new))
         = duplicate_errors W (calls tr1) (calls new)
           + (if fst (upload_register C W fuel compose_meta x (self1, tr1)) = OutOfFuel
              then 0 else 1)"
      by blast
    show ?thesis
      unfolding up t
      using u Returns n none
      by (simp add: calls_append registrations_append duplicate_errors_append
            no_registration_no_duplicate)
  next
    case (Raises e)
    with u none show ?thesis by (simp add: upload_def and_then_def)
  next
    case OutOfFuel
    with u none show ?thesis by (simp add: upload_def and_then_def)
  qed
qed

text \<open>
  C10, as amended. The claim adds that exactly one image registration is attempted per
  job. What holds for every job and every outside world: each remote operation of
  \<^verbatim>\<open>upload\<close> (notifications, the import and the status commands, every driver call,
  among them every registration attempted) targets the first region of the configured
  list, however many regions are configured; the other regions are never used: with a
  list \<open>first|rest\<close> the run is the run of the configuration that lists \<open>first\<close> alone;
  when the part of \<^verbatim>\<open>upload\<close> before the registration does not return, no registration
  is attempted; and when it returns, the registrations attempted are one more than the
  duplicate-name errors that the registration calls were answered with, the registrar
  trying again after each of them (in a run that exhausts the bound of the loop every
  attempt so far was answered with such an error, and the two numbers are equal).
\<close>

theorem upload_targets_first_region:
  "list_all (\<lambda>e. targets (hd (split (CHR ''|'') (AWS_REGIONS C))) (the_call e))
      (snd (snd (upload C W fuel compose_meta (init C url dir vt volt, []))))
   \<and> (CHR ''|'' \<notin> set first \<longrightarrow>
        upload (C\<lparr>AWS_REGIONS := first @ ''|'' @ rest\<rparr>) W fuel compose_meta
           (init (C\<lparr>AWS_REGIONS := first @ ''|'' @ rest\<rparr>) url dir vt volt, [])
        = upload (C\<lparr>AWS_REGIONS := first\<rparr>) W fuel compose_meta
           (init (C\<lparr>AWS_REGIONS := first\<rparr>) url dir vt volt, []))
   \<and> ((\<forall>r. fst (upload_snapshot C W fuel compose_meta (init C url dir vt volt, []))
              \<noteq> Returns r) \<longrightarrow>
        registrations (calls (snd (snd
          (upload C W fuel compose_meta (init C url dir vt volt, []))))) = [])
   \<and> ((\<exists>r. fst (upload_snapshot C W fuel compose_meta (init C url dir vt volt, []))
              = Returns r) \<longrightarrow>
        length (registrations (calls (snd (snd
          (upload C W fuel compose_meta (init C url dir vt volt, []))))))
          = duplicate_errors W [] (calls (snd (snd
              (upload C W fuel compose_meta (init C url dir vt volt, [])))))
            + (if fst (upload C W fuel compose_meta (init C url dir vt volt, [])) = OutOfFuel
               then 0 else 1))"
proof -
  note count = registrations_of_upload_counted
    [where C = C and W = W and fuel = fuel and compose_meta = compose_meta
       and self = "init C url dir vt volt"]
  show ?thesis
  proof (intro conjI impI)
    show "list_all (\<lambda>e. targets (hd (split (CHR ''|'') (AWS_REGIONS C))) (the_call e))
        (snd (snd (upload C W fuel compose_meta (init C url dir vt volt, []))))"
      by (rule upload_calls_target_region)
  next
    assume "CHR ''|'' \<notin> set first"
    then show "upload (C\<lparr>AWS_REGIONS := first @ ''|'' @ rest\<rparr>) W fuel compose_meta
           (init (C\<lparr>AWS_REGIONS := first @ ''|'' @ rest\<rparr>) url dir vt volt, [])
        = upload (C\<lparr>AWS_REGIONS := first\<rparr>) W fuel compose_meta
           (init (C\<lparr>AWS_REGIONS := first\<rparr>) url dir vt volt, [])"
      by (rule upload_first_region_only)
  next
    assume "\<forall>r. fst (upload_snapshot C W fuel compose_meta (init C url dir vt volt, []))
              \<noteq> Returns r"
    with count show "registrations (calls (snd (snd
          (upload C W fuel compose_meta (init C url dir vt volt, []))))) = []"
      by blast
  next
    assume "\<exists>r. fst (upload_snapshot C W fuel compose_meta (init C url dir vt volt, []))
              = Returns r"
    with count show "length (registrations (calls (snd (snd
          (upload C W fuel compose_meta (init C url dir vt volt, []))))))
          = duplicate_errors W [] (calls (snd (snd
              (upload C W fuel compose_meta (init C url dir vt volt, [])))))
            + (if fst (upload C W fuel compose_meta (init C url dir vt volt, [])) = OutOfFuel
               then 0 else 1)"
      by blast
  qed
qed

text \<open>The theorem at the example: two regions configured, the run stays in the first;
  with an empty volume list no registration is attempted; with the first name taken the
  registration is attempted twice, one duplicate-name error having been received.\<close>

theorem upload_targets_first_region_witness:
  "list_all (\<lambda>e. targets ''us-east-1'' (the_call e))
      (snd (snd (upload example_config (example_world '' import-vol-abcd1234'' [example_volume] [])
         3 ''meta'' (example_service, []))))
   \<and> upload (example_config\<lparr>AWS_REGIONS := ''us-east-1'' @ ''|'' @ ''eu-west-1''\<rparr>)
        (example_world '' import-vol-abcd1234'' [example_volume] []) 3 ''meta''
        (init (example_config\<lparr>AWS_REGIONS := ''us-east-1'' @ ''|'' @ ''eu-west-1''\<rparr>)
           ''http://host/f19.raw.xz'' ''/tmp/d'' ''hvm'' ''gp2'', [])
     = upload (example_config\<lparr>AWS_REGIONS := ''us-east-1''\<rparr>)
        (example_world '' import-vol-abcd1234'' [example_volume] []) 3 ''meta''
        (init (example_config\<lparr>AWS_REGIONS := ''us-east-1''\<rparr>)
           ''http://host/f19.raw.xz'' ''/tmp/d'' ''hvm'' ''gp2'', [])
   \<and> registrations (calls (snd (snd (upload example_config
        (example_world '' import-vol-abcd1234'' [] []) 3 ''meta'' (example_service, []))))) = []
   \<and> length (registrations (calls (snd (snd (upload example_config
        (example_world '' import-vol-abcd1234'' [example_volume] ''f19-us-east-1-HVM-gp2-0'')
        3 ''meta'' (example_service, []))))))
     = duplicate_errors
         (example_world '' import-vol-abcd1234'' [example_volume] ''f19-us-east-1-HVM-gp2-0'') []
         (calls (snd (snd (upload example_config
            (example_world '' import-vol-abcd1234'' [example_volume] ''f19-us-east-1-HVM-gp2-0'')
            3 ''meta'' (example_service, []))))) + 1
   \<and> duplicate_errors
         (example_world '' import-vol-abcd1234'' [example_volume] ''f19-us-east-1-HVM-gp2-0'') []
         (calls (snd (snd (upload example_config
            (example_world '' import-vol-abcd1234'' [example_volume] ''f19-us-east-1-HVM-gp2-0'')
            3 ''meta'' (example_service, []))))) = 1"
proof -
  have n: "CHR ''|'' \<notin> set ''us-east-1''" by simp
  have r: "hd (split (CHR ''|'') (AWS_REGIONS example_config)) = ''us-east-1''"
    by (simp add: example_config_def)
  have region: "list_all (\<lambda>e. targets ''us-east-1'' (the_call e))
      (snd (snd (upload example_config (example_world '' import-vol-abcd1234'' [example_volume] [])
         3 ''meta'' (example_service, []))))
   \<and> upload (example_config\<lparr>AWS_REGIONS := ''us-east-1'' @ ''|'' @ ''eu-west-1''\<rparr>)
        (example_world '' import-vol-abcd1234'' [example_volume] []) 3 ''meta''
        (init (example_config\<lparr>AWS_REGIONS := ''us-east-1'' @ ''|'' @ ''eu-west-1''\<rparr>)
           ''http://host/f19.raw.xz'' ''/tmp/d'' ''hvm'' ''gp2'', [])
     = upload (example_config\<lparr>AWS_REGIONS := ''us-east-1''\<rparr>)
        (example_world '' import-vol-abcd1234'' [example_volume] []) 3 ''meta''
        (init (example_config\<lparr>AWS_REGIONS := ''us-east-1''\<rparr>)
           ''http://host/f19.raw.xz'' ''/tmp/d'' ''hvm'' ''gp2'', [])"
    using n r upload_targets_first_region [of example_config
        "example_world '' import-vol-abcd1234'' [example_volume] []" 3 "''meta''"
        "''http://host/f19.raw.xz''" "''/tmp/d''" "''hvm''" "''gp2''" "''us-east-1''" "''eu-west-1''"]
    by (simp add: example_service_def)
  have "fst (upload_snapshot example_config (example_world '' import-vol-abcd1234'' [] [])
         3 ''meta'' (example_service, [])) = Raises IndexError"
    by code_simp
  then have fails: "\<forall>r. fst (upload_snapshot example_config
         (example_world '' import-vol-abcd1234'' [] []) 3 ''meta''
         (init example_config ''http://host/f19.raw.xz'' ''/tmp/d'' ''hvm'' ''gp2'', []))
       \<noteq> Returns r"
    by (simp add: example_service_def)
  have none: "registrations (calls (snd (snd (upload example_config
        (example_world '' import-vol-abcd1234'' [] []) 3 ''meta'' (example_service, []))))) = []"
    using fails upload_targets_first_region [of example_config
        "example_world '' import-vol-abcd1234'' [] []" 3 "''meta''"
        "''http://host/f19.raw.xz''" "''/tmp/d''" "''hvm''" "''gp2''"]
    unfolding example_service_def by blast
  have "fst (upload_snapshot example_config
         (example_world '' import-vol-abcd1234'' [example_volume] ''f19-us-east-1-HVM-gp2-0'')
         3 ''meta'' (example_service, [])) = Returns ''us-east-1''"
    by code_simp
  then have returns: "\<exists>r. fst (upload_snapshot example_config
         (example_world '' import-vol-abcd1234'' [example_volume] ''f19-us-east-1-HVM-gp2-0'')
         3 ''meta'' (init example_config ''http://host/f19.raw.xz'' ''/tmp/d'' ''hvm'' ''gp2'', []))
       = Returns r"
    by (simp add: example_service_def)
  have ends: "fst (upload example_config
         (example_world '' import-vol-abcd1234'' [example_volume] ''f19-us-east-1-HVM-gp2-0'')
         3 ''meta'' (init example_config ''http://host/f19.raw.xz'' ''/tmp/d'' ''hvm'' ''gp2'', []))
       \<noteq> OutOfFuel"
    unfolding example_service_def [symmetric] by code_simp
  have count: "length (registrations (calls (snd (snd (upload example_config
        (example_world '' import-vol-abcd1234'' [example_volume] ''f19-us-east-1-HVM-gp2-0'')
        3 ''meta'' (example_service, []))))))
     = duplicate_errors
         (example_world '' import-vol-abcd1234'' [example_volume] ''f19-us-east-1-HVM-gp2-0'') []
         (calls (snd (snd (upload example_config
            (example_world '' import-vol-abcd1234'' [example_volume] ''f19-us-east-1-HVM-gp2-0'')
            3 ''meta'' (example_service, []))))) + 1"
    using returns ends upload_targets_first_region [of example_config
        "example_world '' import-vol-abcd1234'' [example_volume] ''f19-us-east-1-HVM-gp2-0''"
        3 "''meta''" "''http://host/f19.raw.xz''" "''/tmp/d''" "''hvm''" "''gp2''"]
    unfolding example_service_def by simp
  have dup: "duplicate_errors
         (example_world '' import-vol-abcd1234'' [example_volume] ''f19-us-east-1-HVM-gp2-0'') []
         (calls (snd (snd (upload example_config
            (example_world '' import-vol-abcd1234'' [example_volume] ''f19-us-east-1-HVM-gp2-0'')
            3 ''meta'' (example_service, []))))) = 1"
    by code_simp
  from region none count dup show ?thesis by blast
qed

text \<open>
  C10 as it is stated fails: with an empty volume list the job raises before it attempts
  any registration, and with the first name taken it attempts two.
\<close>

theorem upload_registration_count_counterexample:
  "attempted_names (snd (snd (upload example_config
       (example_world '' import-vol-abcd1234'' [] []) 3 ''meta'' (example_service, [])))) = []
   \<and> fst (upload example_config
       (example_world '' import-vol-abcd1234'' [] []) 3 ''meta'' (example_service, []))
       = Raises IndexError
   \<and> attempted_names (snd (snd (upload example_config
       (example_world '' import-vol-abcd1234'' [example_volume] ''f19-us-east-1-HVM-gp2-0'')
       3 ''meta'' (example_service, []))))
       = [''f19-us-east-1-HVM-gp2-0'', ''f110-us-east-2-HVM-gp3-1'']"
  by code_simp

end
